(* ===== verification/Prelude.thy ===== *)
theory Prelude
  imports Main "HOL-Library.Monad_Syntax" "HOL-Library.Sublist"
begin

text \<open>
  Shared vocabulary of the development: the names of the Go types the components use, the
  fact collections the component proofs draw on, generic list lemmas, and the fixed-width
  arithmetic of Go's \<^verbatim>\<open>int64\<close>.
\<close>

section \<open>Types\<close>

text \<open>
  A Go string is a sequence of bytes, and \<^typ>\<open>char\<close> has exactly 256 values, so a Go
  \<^verbatim>\<open>string\<close> and a \<^verbatim>\<open>[]byte\<close> are both a \<^typ>\<open>string\<close>; conversions between the two are the identity.
\<close>

type_synonym bytes = string

text \<open>
  An \<^verbatim>\<open>int64\<close> is an \<^typ>\<open>int\<close> kept in range by \<open>wrap64\<close>, written out wherever the source
  does arithmetic that could leave the range. A \<^verbatim>\<open>time.Duration\<close> is such an integer, in
  nanoseconds.
\<close>

type_synonym int64 = int
type_synonym duration = int

section \<open>Fact collections\<close>

named_theorems trace_consts \<open>trace rules for a branch on a value that is already known\<close>
named_theorems trace_rules \<open>composition rules of trace specifications\<close>

section \<open>Fixed-width integers\<close>

definition wrap64 :: "int \<Rightarrow> int64" where
  "wrap64 x = (x + 2 ^ 63) mod 2 ^ 64 - 2 ^ 63"

definition int64_ok :: "int \<Rightarrow> bool" where
  "int64_ok x \<longleftrightarrow> - (2 ^ 63) \<le> x \<and> x < 2 ^ 63"

lemma wrap64_id [simp]: "int64_ok x \<Longrightarrow> wrap64 x = x"
  by (simp add: wrap64_def int64_ok_def)

lemma int64_ok_wrap64 [simp, intro]: "int64_ok (wrap64 x)"
  using pos_mod_bound [of "2 ^ 64" "x + 2 ^ 63"] pos_mod_sign [of "2 ^ 64" "x + 2 ^ 63"]
  by (simp add: wrap64_def int64_ok_def)

lemma wrap64_overflow: "2 ^ 63 \<le> x \<Longrightarrow> x < 2 ^ 64 + 2 ^ 63 \<Longrightarrow> wrap64 x = x - 2 ^ 64"
proof -
  assume a: "2 ^ 63 \<le> x" "x < 2 ^ 64 + 2 ^ 63"
  have "(x + 2 ^ 63) mod 2 ^ 64 = (x + 2 ^ 63 - 2 ^ 64) mod 2 ^ 64"
    by (simp only: minus_mod_self2)
  also have "\<dots> = x + 2 ^ 63 - 2 ^ 64"
    by (rule mod_pos_pos_trivial) (use a in simp_all)
  finally show ?thesis
    by (simp add: wrap64_def)
qed

section \<open>Lists\<close>

lemma map_of_filter_neq [simp]:
  "map_of (filter (\<lambda>p. fst p \<noteq> k) xs) = (map_of xs)(k := None)"
  by (induction xs) auto

lemma distinct_map_fst_filter [intro, simp]:
  "distinct (map fst xs) \<Longrightarrow> distinct (map fst (filter P xs))"
  by (induction xs) auto

lemma takeWhile_append_delim:
  "(\<forall>x \<in> set xs. x \<noteq> d) \<Longrightarrow> takeWhile (\<lambda>x. x \<noteq> d) (xs @ d # ys) = xs"
  by (induction xs) auto

text \<open>
  Two sequences of delimiter-free fields that concatenate to the same text agree field by
  field: the fact behind every unambiguous delimiter-separated format.
\<close>

fun join_with :: "'a \<Rightarrow> 'a list list \<Rightarrow> 'a list" where
  "join_with d [] = []"
| "join_with d [x] = x"
| "join_with d (x # y # zs) = x @ d # join_with d (y # zs)"

lemma split_first_field:
  assumes "d \<notin> set x" "d \<notin> set x'" "x @ d # r = x' @ d # r'"
  shows "x = x' \<and> r = r'"
  using assms
proof (induction x arbitrary: x')
  case Nil
  then show ?case by (cases x') auto
next
  case (Cons a x)
  from Cons.prems obtain y where x': "x' = a # y"
    by (cases x') auto
  with Cons.prems have "x = y \<and> r = r'"
    by (intro Cons.IH) auto
  with x' show ?case by simp
qed

lemma join_with_no_delim:
  assumes "d \<notin> set x" "\<forall>f \<in> set (y # ys). d \<notin> set f"
  shows "x \<noteq> join_with d (z # y # ys)"
  using assms by auto

lemma join_with_inj:
  assumes "\<forall>f \<in> set xs. d \<notin> set f" "\<forall>f \<in> set ys. d \<notin> set f"
    and "xs \<noteq> []" "ys \<noteq> []" "join_with d xs = join_with d ys"
  shows "xs = ys"
  using assms
proof (induction xs arbitrary: ys rule: join_with.induct)
  case (1 d)
  then show ?case by simp
next
  case (2 d x)
  then show ?case
    by (cases ys; cases "tl ys") auto
next
  case (3 d x y zs)
  from "3.prems" obtain x' ys' where ys: "ys = x' # ys'"
    by (cases ys) auto
  show ?case
  proof (cases ys')
    case Nil
    with "3.prems" ys have "x' = x @ d # join_with d (y # zs)" "d \<notin> set x'"
      by auto
    then show ?thesis by simp
  next
    case (Cons y' zs')
    with "3.prems" ys have "d \<notin> set x" "d \<notin> set x'"
      "x @ d # join_with d (y # zs) = x' @ d # join_with d (y' # zs')"
      by auto
    then have "x = x' \<and> join_with d (y # zs) = join_with d (y' # zs')"
      by (intro split_first_field)
    with "3.IH" [of "y' # zs'"] "3.prems" ys Cons show ?thesis
      by auto
  qed
qed

end
