(* ===== verification/Go_Strings.thy ===== *)
theory Go_Strings
  imports Prelude
begin

text \<open>
  What the program uses of Go's \<^verbatim>\<open>strings\<close>, \<^verbatim>\<open>bytes\<close>, \<^verbatim>\<open>strconv\<close> and \<^verbatim>\<open>fmt\<close> packages, on byte
  strings. Exactness: \<open>ToLower\<close> is only ever compared with ASCII text, so besides ASCII it
  maps just the two other code points whose lower case is ASCII (the Kelvin sign and the
  dotted capital I); \<open>Quote\<close> (the verb \<^verbatim>\<open>%q\<close>) leaves the bytes of non-ASCII characters as they are,
  as Go does for printable ones. Everything else is exact.
\<close>

section \<open>The strings package\<close>

definition HasPrefix :: "string \<Rightarrow> string \<Rightarrow> bool" where
  "HasPrefix s p \<longleftrightarrow> take (length p) s = p"

definition TrimPrefix :: "string \<Rightarrow> string \<Rightarrow> string" where
  "TrimPrefix s p = (if HasPrefix s p then drop (length p) s else s)"

definition TrimRight :: "string \<Rightarrow> char \<Rightarrow> string" where
  "TrimRight s c = rev (dropWhile (\<lambda>x. x = c) (rev s))"

fun Split :: "string \<Rightarrow> char \<Rightarrow> string list" where
  "Split [] c = [[]]"
| "Split (x # xs) c =
     (if x = c then [] # Split xs c
      else (case Split xs c of [] \<Rightarrow> [[x]] | f # fs \<Rightarrow> (x # f) # fs))"

fun Contains :: "string \<Rightarrow> string \<Rightarrow> bool" where
  "Contains [] p = (p = [])"
| "Contains (x # xs) p = (HasPrefix (x # xs) p \<or> Contains xs p)"

text \<open>The UTF-8 encodings of the code points \<^verbatim>\<open>unicode.IsSpace\<close> accepts.\<close>

definition space_encodings :: "string list" where
  "space_encodings =
     map (\<lambda>n. [char_of (n :: nat)]) [9, 10, 11, 12, 13, 32] @
     map (map (\<lambda>n. char_of (n :: nat)))
       ([[194, 133], [194, 160], [225, 154, 128]] @
        map (\<lambda>n. [226, 128, n]) ([128..<139] @ [168, 169, 175]) @
        [[226, 129, 159], [227, 128, 128]])"

definition drop_space :: "string list \<Rightarrow> string \<Rightarrow> string option" where
  "drop_space encs s =
     map_option (\<lambda>p. drop (length p) s) (List.find (\<lambda>p. p \<noteq> [] \<and> HasPrefix s p) encs)"

lemma drop_space_shorter: "drop_space encs s = Some t \<Longrightarrow> length t < length s"
  by (auto simp: drop_space_def HasPrefix_def find_Some_iff)
    (metis diff_less length_greater_0_conv take_eq_Nil)

function trim_left_with :: "string list \<Rightarrow> string \<Rightarrow> string" where
  "trim_left_with encs s =
     (case drop_space encs s of None \<Rightarrow> s | Some t \<Rightarrow> trim_left_with encs t)"
  by pat_completeness auto
termination
  by (relation "measure (\<lambda>(encs, s). length s)") (auto dest: drop_space_shorter)

declare trim_left_with.simps [simp del]

definition TrimSpace :: "string \<Rightarrow> string" where
  "TrimSpace s =
     rev (trim_left_with (map rev space_encodings) (rev (trim_left_with space_encodings s)))"

text \<open>\<^verbatim>\<open>strings.ToLower\<close>, as far as a comparison with ASCII text can see it.\<close>

definition lower_char :: "char \<Rightarrow> char" where
  "lower_char c =
     (let n = of_char c :: nat in if 65 \<le> n \<and> n \<le> 90 then char_of (n + 32) else c)"

fun ToLower :: "string \<Rightarrow> string" where
  "ToLower [] = []"
| "ToLower (c # s) =
     (if HasPrefix (c # s) (map (\<lambda>n. char_of (n :: nat)) [226, 132, 170])
        then CHR ''k'' # ToLower (drop 2 s)
      else if HasPrefix (c # s) (map (\<lambda>n. char_of (n :: nat)) [196, 176])
        then CHR ''i'' # ToLower (drop 1 s)
      else lower_char c # ToLower s)"

text \<open>The part before the first newline: \<^verbatim>\<open>msg[:strings.IndexByte(msg, '\n')]\<close>, if there is one.\<close>

abbreviation newline :: char where
  "newline \<equiv> CHR 0x0A"

definition first_line :: "string \<Rightarrow> string" where
  "first_line s = takeWhile (\<lambda>c. c \<noteq> newline) s"

section \<open>strconv and fmt\<close>

definition digit :: "nat \<Rightarrow> char" where
  "digit n = char_of (48 + n)"

definition digit_val :: "char \<Rightarrow> nat" where
  "digit_val c = of_char c - 48"

definition is_digit :: "char \<Rightarrow> bool" where
  "is_digit c \<longleftrightarrow> 48 \<le> (of_char c :: nat) \<and> (of_char c :: nat) \<le> 57"

fun dec_nat :: "nat \<Rightarrow> string" where
  "dec_nat n = (if n < 10 then [digit n] else dec_nat (n div 10) @ [digit (n mod 10)])"

declare dec_nat.simps [simp del]

definition FormatInt :: "int \<Rightarrow> string" where
  "FormatInt i = (if i < 0 then CHR ''-'' # dec_nat (nat (- i)) else dec_nat (nat i))"

definition dec_val :: "string \<Rightarrow> nat" where
  "dec_val s = foldl (\<lambda>a c. 10 * a + digit_val c) 0 s"

definition ParseInt :: "string \<Rightarrow> int option" where
  "ParseInt s =
     (let neg = (s \<noteq> [] \<and> hd s = CHR ''-'');
          ds = (if s \<noteq> [] \<and> (hd s = CHR ''-'' \<or> hd s = CHR ''+'') then tl s else s);
          v = (if neg then - int (dec_val ds) else int (dec_val ds))
      in if ds \<noteq> [] \<and> list_all is_digit ds \<and> int64_ok v then Some v else None)"

definition ParseBool :: "string \<Rightarrow> bool option" where
  "ParseBool s =
     (if s \<in> {''1'', ''t'', ''T'', ''TRUE'', ''true'', ''True''} then Some True
      else if s \<in> {''0'', ''f'', ''F'', ''FALSE'', ''false'', ''False''} then Some False
      else None)"

text \<open>The verb \<^verbatim>\<open>%t\<close>, and the verb \<^verbatim>\<open>%q\<close> on strings.\<close>

definition FormatBool :: "bool \<Rightarrow> string" where
  "FormatBool b = (if b then ''true'' else ''false'')"

definition hex_digit :: "nat \<Rightarrow> char" where
  "hex_digit n = (if n < 10 then char_of (48 + n) else char_of (87 + n))"

definition quote_char :: "char \<Rightarrow> string" where
  "quote_char c =
     (let n = of_char c :: nat; bs = CHR 0x5C in
      if n = 34 then [bs, CHR 0x22] else if n = 92 then [bs, bs]
      else if n = 7 then [bs, CHR ''a''] else if n = 8 then [bs, CHR ''b'']
      else if n = 9 then [bs, CHR ''t''] else if n = 10 then [bs, CHR ''n'']
      else if n = 11 then [bs, CHR ''v''] else if n = 12 then [bs, CHR ''f'']
      else if n = 13 then [bs, CHR ''r'']
      else if n < 32 \<or> n = 127
        then [bs, CHR ''x'', hex_digit (n div 16), hex_digit (n mod 16)]
      else [c])"

definition Quote :: "string \<Rightarrow> string" where
  "Quote s = [CHR 0x22] @ concat (map quote_char s) @ [CHR 0x22]"

text \<open>Graphic ASCII characters and lower case letters, which the functions above leave alone.\<close>

definition graphic_char :: "char \<Rightarrow> bool" where
  "graphic_char c \<longleftrightarrow> (33 :: nat) \<le> of_char c \<and> of_char c \<le> (126 :: nat)"

definition lower_letter :: "char \<Rightarrow> bool" where
  "lower_letter c \<longleftrightarrow> (97 :: nat) \<le> of_char c \<and> of_char c \<le> (122 :: nat)"

section \<open>Facts\<close>

lemma HasPrefix_append [simp]: "HasPrefix (p @ s) p"
  by (simp add: HasPrefix_def)

lemma HasPrefix_iff: "HasPrefix s p \<longleftrightarrow> (\<exists>t. s = p @ t)"
  by (metis HasPrefix_def HasPrefix_append append_take_drop_id)

lemma TrimPrefix_append [simp]: "TrimPrefix (p @ s) p = s"
  by (simp add: TrimPrefix_def)

lemma TrimRight_no_suffix: "TrimRight s c = [] \<or> last (TrimRight s c) \<noteq> c"
proof (cases "dropWhile (\<lambda>x. x = c) (rev s)")
  case Nil
  then show ?thesis by (simp add: TrimRight_def)
next
  case (Cons a as)
  then have "a \<noteq> c"
    using hd_dropWhile [of "\<lambda>x. x = c" "rev s"] by simp
  with Cons show ?thesis by (simp add: TrimRight_def)
qed

lemma TrimRight_idem [simp]: "TrimRight (TrimRight s c) c = TrimRight s c"
  by (simp add: TrimRight_def)

lemma Split_nonempty [simp]: "Split s c \<noteq> []"
  by (induction s) (auto split: list.splits)

lemma Split_no_delim: "f \<in> set (Split s c) \<Longrightarrow> c \<notin> set f"
proof (induction s arbitrary: f)
  case Nil
  then show ?case by simp
next
  case (Cons x s)
  obtain g fs where fs: "Split s c = g # fs"
    by (cases "Split s c") auto
  from Cons.prems fs have "f = [] \<or> f \<in> set (g # fs) \<or> (x \<noteq> c \<and> f = x # g)"
    by (auto split: if_splits)
  with Cons.IH [of f] Cons.IH [of g] fs show ?case
    by auto
qed

lemma join_Split: "join_with c (Split s c) = s"
proof (induction s)
  case Nil
  then show ?case by simp
next
  case (Cons x s)
  obtain f fs where fs: "Split s c = f # fs"
    by (cases "Split s c") auto
  with Cons show ?case
    by (cases fs) auto
qed

lemma of_char_digit [simp]: "n < 10 \<Longrightarrow> (of_char (digit n) :: nat) = 48 + n"
  by (simp add: digit_def)

lemma digit_val_digit [simp]: "n < 10 \<Longrightarrow> digit_val (digit n) = n"
  by (simp add: digit_val_def)

lemma is_digit_digit [simp]: "n < 10 \<Longrightarrow> is_digit (digit n)"
  by (simp add: is_digit_def)

lemma dec_val_Nil [simp]: "dec_val [] = 0"
  by (simp add: dec_val_def)

lemma dec_val_snoc [simp]: "dec_val (s @ [c]) = 10 * dec_val s + digit_val c"
  by (simp add: dec_val_def)

lemma dec_val_dec_nat [simp]: "dec_val (dec_nat n) = n"
proof (induction n rule: dec_nat.induct)
  case (1 n)
  then show ?case
  proof (cases "n < 10")
    case True
    then show ?thesis
      using dec_val_snoc [of "[]" "digit n"] by (simp add: dec_nat.simps)
  next
    case False
    with 1 show ?thesis
      by (subst dec_nat.simps) simp
  qed
qed

lemma dec_nat_digits: "c \<in> set (dec_nat n) \<Longrightarrow> is_digit c"
proof (induction n rule: dec_nat.induct)
  case (1 n)
  then show ?case
    by (subst (asm) (2) dec_nat.simps) (auto split: if_splits)
qed

lemma dec_nat_nonempty [simp]: "dec_nat n \<noteq> []"
  by (subst dec_nat.simps) simp

lemma not_digit_sign [simp]: "\<not> is_digit CHR ''-''" "\<not> is_digit CHR ''+''" "\<not> is_digit newline"
  by (simp_all add: is_digit_def)

lemma dec_nat_Cons_not_sign:
  "dec_nat n = c # s \<Longrightarrow> c \<noteq> CHR ''-'' \<and> c \<noteq> CHR ''+''"
  using dec_nat_digits [of c n] by auto

lemma ParseInt_dec_nat:
  assumes "int64_ok (int n)"
  shows "ParseInt (dec_nat n) = Some (int n)"
proof -
  obtain c s where cs: "dec_nat n = c # s"
    by (cases "dec_nat n") auto
  have "list_all is_digit (dec_nat n)"
    by (auto simp: list_all_iff dec_nat_digits)
  moreover have "hd (dec_nat n) \<noteq> CHR ''-''" "hd (dec_nat n) \<noteq> CHR ''+''"
    using dec_nat_Cons_not_sign [OF cs] cs by auto
  ultimately show ?thesis
    using assms by (simp add: ParseInt_def)
qed

lemma ParseInt_FormatInt [simp]:
  assumes "int64_ok i"
  shows "ParseInt (FormatInt i) = Some i"
proof (cases "i < 0")
  case True
  then have "list_all is_digit (dec_nat (nat (- i)))"
    by (auto simp: list_all_iff dec_nat_digits)
  with True assms show ?thesis
    by (simp add: FormatInt_def ParseInt_def)
next
  case False
  with assms ParseInt_dec_nat [of "nat i"] show ?thesis
    by (simp add: FormatInt_def)
qed

lemma FormatInt_inj: "FormatInt i = FormatInt j \<longleftrightarrow> i = j"
proof
  assume eq: "FormatInt i = FormatInt j"
  have *: "k < 0 \<longleftrightarrow> hd (FormatInt k) = CHR ''-''" for k
    by (cases "dec_nat (nat k)") (auto simp: FormatInt_def dest: dec_nat_Cons_not_sign)
  then have sign: "i < 0 \<longleftrightarrow> j < 0"
    using eq by simp
  have "dec_val (if k < 0 then tl (FormatInt k) else FormatInt k) = nat \<bar>k\<bar>" for k
    by (simp add: FormatInt_def)
  from this [of i] this [of j] eq sign have "nat \<bar>i\<bar> = nat \<bar>j\<bar>"
    by (cases "j < 0") simp_all
  with sign show "i = j" by linarith
qed simp

lemma FormatInt_no_newline [simp]: "newline \<notin> set (FormatInt i)"
  by (auto simp: FormatInt_def dest: dec_nat_digits)

lemma FormatBool_inj [simp]: "FormatBool a = FormatBool b \<longleftrightarrow> a = b"
  by (simp add: FormatBool_def)

lemma FormatBool_no_newline [simp]: "newline \<notin> set (FormatBool b)"
  by (simp add: FormatBool_def)

lemma first_line_no_newline [simp]: "newline \<notin> set (first_line s)"
  by (auto simp: first_line_def dest: set_takeWhileD)

lemma first_line_prefix: "\<exists>t. s = first_line s @ t"
  by (metis first_line_def takeWhile_dropWhile_id)

lemma trim_left_id:
  assumes a: "\<And>p. p \<in> set encs \<Longrightarrow> p \<noteq> [] \<Longrightarrow> s \<noteq> [] \<Longrightarrow> hd p \<noteq> hd s"
  shows "trim_left_with encs s = s"
proof -
  have "\<not> HasPrefix s p" if "p \<in> set encs" "p \<noteq> []" for p
    using a [OF that] that(2) by (cases p; cases s) (auto simp: HasPrefix_def)
  then have "drop_space encs s = None"
    by (auto simp: drop_space_def find_None_iff)
  then show ?thesis by (simp add: trim_left_with.simps)
qed

lemma TrimSpace_graphic:
  assumes s: "list_all graphic_char s"
  shows "TrimSpace s = s"
proof -
  have d: "\<not> graphic_char (hd p) \<and> \<not> graphic_char (last p)" if "p \<in> set space_encodings" for p
    using that by (auto simp: space_encodings_def graphic_char_def)
  have "trim_left_with space_encodings s = s"
    using s d by (intro trim_left_id) (metis hd_in_set list_all_iff)
  moreover have "trim_left_with (map rev space_encodings) (rev s) = rev s"
    using s d by (intro trim_left_id) (auto simp: hd_rev list_all_iff, metis last_in_set)
  ultimately show ?thesis by (simp add: TrimSpace_def)
qed

lemma ToLower_letters: "list_all lower_letter s \<Longrightarrow> ToLower s = s"
proof (induction s)
  case (Cons c s)
  then have "c \<noteq> char_of (226 :: nat)" "c \<noteq> char_of (196 :: nat)" "lower_char c = c"
    by (auto simp: lower_letter_def lower_char_def)
  with Cons show ?case by (simp add: HasPrefix_def)
qed simp

lemma lower_graphic: "list_all lower_letter s \<Longrightarrow> list_all graphic_char s"
  by (auto simp: list_all_iff lower_letter_def graphic_char_def)

lemma ToLower_TrimSpace: "list_all lower_letter s \<Longrightarrow> ToLower (TrimSpace s) = s"
  by (simp add: TrimSpace_graphic lower_graphic ToLower_letters)

end
