(* ===== verification/Go_Crypto.thy ===== *)
theory Go_Crypto
  imports Go_Strings "HOL-Library.Word"
begin

text \<open>
  What the program uses of \<^verbatim>\<open>encoding/base64\<close> (\<^verbatim>\<open>StdEncoding\<close>), \<^verbatim>\<open>encoding/hex\<close> and
  \<^verbatim>\<open>crypto/sha256\<close>, executable on byte strings. The two text encodings are instances of one
  interface, \<open>byte_codec\<close>. Ed25519 is not defined here: its signing and verification functions
  are parameters of the definitions that use them.
\<close>

unbundle bit_operations_syntax

section \<open>The interface of a text encoding\<close>

locale byte_codec =
  fixes encode :: "bytes \<Rightarrow> string"
    and decode :: "string \<Rightarrow> bytes option"
  assumes decode_encode: "decode (encode b) = Some b"
    and encode_no_newline: "newline \<notin> set (encode b)"
begin

lemma encode_inj: "encode a = encode b \<longleftrightarrow> a = b"
  by (metis decode_encode option.inject)

lemma encode_empty_unique: "encode a = [] \<Longrightarrow> encode b = [] \<Longrightarrow> a = b"
  using encode_inj by metis

end

section \<open>Base64\<close>

definition b64_char :: "nat \<Rightarrow> char" where
  "b64_char n =
     (if n < 26 then char_of (65 + n) else if n < 52 then char_of (71 + n)
      else if n < 62 then char_of (n - 4) else if n = 62 then CHR ''+'' else CHR ''/'')"

definition b64_val :: "char \<Rightarrow> nat option" where
  "b64_val c =
     (let n = of_char c :: nat in
      if 65 \<le> n \<and> n \<le> 90 then Some (n - 65) else if 97 \<le> n \<and> n \<le> 122 then Some (n - 71)
      else if 48 \<le> n \<and> n \<le> 57 then Some (n + 4) else if n = 43 then Some 62
      else if n = 47 then Some 63 else None)"

fun b64_encode :: "nat list \<Rightarrow> string" where
  "b64_encode [] = []"
| "b64_encode [a] = [b64_char (a div 4), b64_char (a mod 4 * 16), CHR ''='', CHR ''='']"
| "b64_encode [a, b] =
     [b64_char (a div 4), b64_char (a mod 4 * 16 + b div 16), b64_char (b mod 16 * 4), CHR ''='']"
| "b64_encode (a # b # c # r) =
     b64_char (a div 4) # b64_char (a mod 4 * 16 + b div 16) #
     b64_char (b mod 16 * 4 + c div 64) # b64_char (c mod 64) # b64_encode r"

text \<open>
  Decoding skips carriage returns and newlines, accepts padding only at the end of the input and
  ignores the unused bits of the last character, as \<^verbatim>\<open>StdEncoding\<close> does.
\<close>

fun b64_quads :: "string \<Rightarrow> nat list option" where
  "b64_quads [] = Some []"
| "b64_quads (a # b # c # d # r) =
     (case (b64_val a, b64_val b) of
        (Some x, Some y) \<Rightarrow>
          if c = CHR ''='' then (if d = CHR ''='' \<and> r = [] then Some [x * 4 + y div 16] else None)
          else (case b64_val c of
             None \<Rightarrow> None
           | Some z \<Rightarrow>
               if d = CHR ''=''
               then (if r = [] then Some [x * 4 + y div 16, y mod 16 * 16 + z div 4] else None)
               else (case b64_val d of
                  None \<Rightarrow> None
                | Some w \<Rightarrow>
                    map_option
                      (\<lambda>t. (x * 4 + y div 16) # (y mod 16 * 16 + z div 4) # (z mod 4 * 64 + w) # t)
                      (b64_quads r)))
      | _ \<Rightarrow> None)"
| "b64_quads _ = None"

definition base64_EncodeToString :: "bytes \<Rightarrow> string" where
  "base64_EncodeToString b = b64_encode (map of_char b)"

definition base64_DecodeString :: "string \<Rightarrow> bytes option" where
  "base64_DecodeString s =
     map_option (map char_of) (b64_quads (filter (\<lambda>c. c \<noteq> newline \<and> c \<noteq> CHR 0x0D) s))"

lemma b64_val_char [simp]: "n < 64 \<Longrightarrow> b64_val (b64_char n) = Some n"
  by (auto simp: b64_val_def b64_char_def Let_def)

lemma b64_char_not_special [simp]:
  "n < 64 \<Longrightarrow> b64_char n \<noteq> CHR ''=''" "n < 64 \<Longrightarrow> b64_char n \<noteq> newline"
  "n < 64 \<Longrightarrow> b64_char n \<noteq> CHR 0x0D"
proof -
  have *: "b64_val (CHR ''='') = None" "b64_val newline = None" "b64_val (CHR 0x0D) = None"
    by (simp_all add: b64_val_def)
  show "n < 64 \<Longrightarrow> b64_char n \<noteq> CHR ''=''" "n < 64 \<Longrightarrow> b64_char n \<noteq> newline"
    "n < 64 \<Longrightarrow> b64_char n \<noteq> CHR 0x0D"
    using * by (metis b64_val_char option.distinct(1))+
qed

lemma byte_split_bounds [simp]:
  "a < 256 \<Longrightarrow> a div 4 < (64 :: nat)" "a mod 4 * 16 < (64 :: nat)"
  "b < 256 \<Longrightarrow> a mod 4 * 16 + b div 16 < (64 :: nat)" "b mod 16 * 4 < (64 :: nat)"
  "c < 256 \<Longrightarrow> b mod 16 * 4 + c div 64 < (64 :: nat)"
  by linarith+

lemma byte_join [simp]:
  "b < 256 \<Longrightarrow> b div 16 div 16 = (0 :: nat)"
  "b < 256 \<Longrightarrow> b div 16 mod 16 * 16 + b mod 16 = (b :: nat)"
  "b < 256 \<Longrightarrow> c < 256 \<Longrightarrow> b div 16 mod 16 * 16 + (b mod 16 + c div 64 div 4) = (b :: nat)"
  "c < 256 \<Longrightarrow> c div 64 mod 4 * 64 + c mod 64 = (c :: nat)"
proof -
  have *: "b < 256 \<Longrightarrow> b div 16 < 16" "b < 256 \<Longrightarrow> b div 64 < 4" for b :: nat
    by linarith+
  show "b < 256 \<Longrightarrow> b div 16 div 16 = 0"
    "b < 256 \<Longrightarrow> b div 16 mod 16 * 16 + b mod 16 = b"
    "b < 256 \<Longrightarrow> c < 256 \<Longrightarrow> b div 16 mod 16 * 16 + (b mod 16 + c div 64 div 4) = b"
    "c < 256 \<Longrightarrow> c div 64 mod 4 * 64 + c mod 64 = c"
    using * [of b] * [of c] by simp_all
qed

lemma b64_quads_encode: "\<forall>x \<in> set xs. x < 256 \<Longrightarrow> b64_quads (b64_encode xs) = Some xs"
  by (induction xs rule: b64_encode.induct) simp_all

lemma b64_encode_chars:
  "\<forall>x \<in> set xs. x < 256 \<Longrightarrow> c \<in> set (b64_encode xs) \<Longrightarrow> c \<noteq> newline \<and> c \<noteq> CHR 0x0D"
  by (induction xs rule: b64_encode.induct) auto

lemma of_char_bytes [simp]: "\<forall>x \<in> set (map of_char (b :: bytes)). x < (256 :: nat)"
  by auto

interpretation b64: byte_codec base64_EncodeToString base64_DecodeString
proof
  fix b :: bytes
  have "filter (\<lambda>c. c \<noteq> newline \<and> c \<noteq> CHR 0x0D) (b64_encode (map of_char b)) =
      b64_encode (map of_char b)"
    using b64_encode_chars [OF of_char_bytes [of b]] by (intro filter_True) blast
  then show "base64_DecodeString (base64_EncodeToString b) = Some b"
    using b64_quads_encode [OF of_char_bytes [of b]]
    by (simp add: base64_DecodeString_def base64_EncodeToString_def comp_def)
  show "newline \<notin> set (base64_EncodeToString b)"
    using b64_encode_chars [OF of_char_bytes [of b]] by (auto simp: base64_EncodeToString_def)
qed

lemma base64_encode_eq_Nil [simp]: "base64_EncodeToString b = [] \<longleftrightarrow> b = []"
  by (cases "map of_char b :: nat list" rule: b64_encode.cases)
    (auto simp: base64_EncodeToString_def)

text \<open>The number of bytes a padding-free text decodes to.\<close>

lemma b64_quads_length:
  assumes "b64_quads s = Some xs" "CHR ''='' \<notin> set s"
  shows "length xs * 4 = length s * 3"
  using assms
  by (induction s arbitrary: xs rule: b64_quads.induct)
    (auto split: option.splits if_splits)

section \<open>Hexadecimal\<close>

definition hex_val :: "char \<Rightarrow> nat option" where
  "hex_val c =
     (let n = of_char c :: nat in
      if 48 \<le> n \<and> n \<le> 57 then Some (n - 48) else if 97 \<le> n \<and> n \<le> 102 then Some (n - 87)
      else if 65 \<le> n \<and> n \<le> 70 then Some (n - 55) else None)"

definition hex_EncodeToString :: "bytes \<Rightarrow> string" where
  "hex_EncodeToString b =
     concat (map (\<lambda>c. let n = of_char c :: nat in [hex_digit (n div 16), hex_digit (n mod 16)]) b)"

fun hex_DecodeString :: "string \<Rightarrow> bytes option" where
  "hex_DecodeString [] = Some []"
| "hex_DecodeString [_] = None"
| "hex_DecodeString (a # b # r) =
     (case (hex_val a, hex_val b, hex_DecodeString r) of
        (Some x, Some y, Some t) \<Rightarrow> Some (char_of (x * 16 + y) # t)
      | _ \<Rightarrow> None)"

lemma hex_val_digit [simp]: "n < 16 \<Longrightarrow> hex_val (hex_digit n) = Some n"
  by (auto simp: hex_val_def hex_digit_def Let_def)

lemma hex_digit_alnum:
  assumes "n < 16"
  shows "(of_char (hex_digit n) :: nat) \<in> {48..57} \<union> {97..102}"
  using assms by (auto simp: hex_digit_def)

lemma hex_encode_Nil [simp]: "hex_EncodeToString [] = []"
  by (simp add: hex_EncodeToString_def)

lemma hex_encode_Cons [simp]:
  "hex_EncodeToString (c # b) =
     hex_digit (of_char c div 16) # hex_digit (of_char c mod 16) # hex_EncodeToString b"
  by (simp add: hex_EncodeToString_def Let_def)

lemma byte_nibbles [simp]:
  "(of_char (c :: char) :: nat) div 16 < 16" "(of_char (c :: char) :: nat) mod 16 < 16"
  "of_char (c :: char) div 16 * 16 + of_char c mod 16 = (of_char c :: nat)"
  using nat_of_char_less_256 [of c] by (simp_all del: nat_of_char_less_256)

lemma hex_encode_chars:
  "c \<in> set (hex_EncodeToString b) \<Longrightarrow> (of_char c :: nat) \<in> {48..57} \<union> {97..102}"
proof (induction b)
  case (Cons d b)
  then show ?case
    using hex_digit_alnum [OF byte_nibbles(1) [of d]] hex_digit_alnum [OF byte_nibbles(2) [of d]]
    by (metis hex_encode_Cons set_ConsD)
qed simp

lemma hex_encode_length [simp]: "length (hex_EncodeToString b) = 2 * length b"
  by (induction b) simp_all

interpretation hex: byte_codec hex_EncodeToString hex_DecodeString
proof
  fix b :: bytes
  show "hex_DecodeString (hex_EncodeToString b) = Some b"
    by (induction b) (simp_all add: byte_nibbles)
  show "newline \<notin> set (hex_EncodeToString b)"
    using hex_encode_chars [of newline b] by auto
qed

section \<open>SHA-256\<close>

type_synonym u32 = "32 word"

definition sha_K :: "u32 list" where
  "sha_K =
     [0x428A2F98, 0x71374491, 0xB5C0FBCF, 0xE9B5DBA5, 0x3956C25B, 0x59F111F1,
      0x923F82A4, 0xAB1C5ED5, 0xD807AA98, 0x12835B01, 0x243185BE, 0x550C7DC3,
      0x72BE5D74, 0x80DEB1FE, 0x9BDC06A7, 0xC19BF174, 0xE49B69C1, 0xEFBE4786,
      0x0FC19DC6, 0x240CA1CC, 0x2DE92C6F, 0x4A7484AA, 0x5CB0A9DC, 0x76F988DA,
      0x983E5152, 0xA831C66D, 0xB00327C8, 0xBF597FC7, 0xC6E00BF3, 0xD5A79147,
      0x06CA6351, 0x14292967, 0x27B70A85, 0x2E1B2138, 0x4D2C6DFC, 0x53380D13,
      0x650A7354, 0x766A0ABB, 0x81C2C92E, 0x92722C85, 0xA2BFE8A1, 0xA81A664B,
      0xC24B8B70, 0xC76C51A3, 0xD192E819, 0xD6990624, 0xF40E3585, 0x106AA070,
      0x19A4C116, 0x1E376C08, 0x2748774C, 0x34B0BCB5, 0x391C0CB3, 0x4ED8AA4A,
      0x5B9CCA4F, 0x682E6FF3, 0x748F82EE, 0x78A5636F, 0x84C87814, 0x8CC70208,
      0x90BEFFFA, 0xA4506CEB, 0xBEF9A3F7, 0xC67178F2]"

definition sha_H0 :: "u32 list" where
  "sha_H0 =
     [0x6A09E667, 0xBB67AE85, 0x3C6EF372, 0xA54FF53A, 0x510E527F, 0x9B05688C,
      0x1F83D9AB, 0x5BE0CD19]"

definition big_sigma0 :: "u32 \<Rightarrow> u32" where
  "big_sigma0 x = word_rotr 2 x XOR word_rotr 13 x XOR word_rotr 22 x"

definition big_sigma1 :: "u32 \<Rightarrow> u32" where
  "big_sigma1 x = word_rotr 6 x XOR word_rotr 11 x XOR word_rotr 25 x"

definition small_sigma0 :: "u32 \<Rightarrow> u32" where
  "small_sigma0 x = word_rotr 7 x XOR word_rotr 18 x XOR drop_bit 3 x"

definition small_sigma1 :: "u32 \<Rightarrow> u32" where
  "small_sigma1 x = word_rotr 17 x XOR word_rotr 19 x XOR drop_bit 10 x"

text \<open>The message schedule, newest word first: \<open>n\<close> more words in front of those given.\<close>

fun sha_schedule :: "nat \<Rightarrow> u32 list \<Rightarrow> u32 list" where
  "sha_schedule 0 ws = ws"
| "sha_schedule (Suc n) ws =
     sha_schedule n
       ((small_sigma1 (ws ! 1) + ws ! 6 + small_sigma0 (ws ! 14) + ws ! 15) # ws)"

definition sha_round :: "u32 list \<Rightarrow> u32 \<times> u32 \<Rightarrow> u32 list" where
  "sha_round st kw =
     (let a = st ! 0; b = st ! 1; c = st ! 2; d = st ! 3;
          e = st ! 4; f = st ! 5; g = st ! 6; h = st ! 7;
          t1 = h + big_sigma1 e + ((e AND f) XOR (NOT e AND g)) + fst kw + snd kw;
          t2 = big_sigma0 a + ((a AND b) XOR (a AND c) XOR (b AND c))
      in [t1 + t2, a, b, c, d + t1, e, f, g])"

definition sha_block :: "u32 list \<Rightarrow> u32 list \<Rightarrow> u32 list" where
  "sha_block hs ws =
     map2 (+) hs (foldl sha_round hs (zip sha_K (rev (sha_schedule 48 (rev ws)))))"

fun be_words :: "bytes \<Rightarrow> u32 list" where
  "be_words (a # b # c # d # r) =
     word_of_nat (((of_char a * 256 + of_char b) * 256 + of_char c) * 256 + of_char d) # be_words r"
| "be_words _ = []"

definition be_bytes :: "nat \<Rightarrow> nat \<Rightarrow> bytes" where
  "be_bytes k n = map (\<lambda>i. char_of (n div 256 ^ i mod 256)) (rev [0..<k])"

definition sha_pad :: "bytes \<Rightarrow> bytes" where
  "sha_pad m =
     m @ [CHR 0x80] @ replicate (nat ((55 - int (length m)) mod 64)) (CHR 0x00) @
     be_bytes 8 (8 * length m)"

fun chunks_of :: "nat \<Rightarrow> 'a list \<Rightarrow> nat \<Rightarrow> 'a list list" where
  "chunks_of n xs 0 = []"
| "chunks_of n xs (Suc k) = take n xs # chunks_of n (drop n xs) k"

definition sha256_Sum256 :: "bytes \<Rightarrow> bytes" where
  "sha256_Sum256 m =
     (let ws = be_words (sha_pad m)
      in concat (map (\<lambda>w. be_bytes 4 (unat w))
           (foldl sha_block sha_H0 (chunks_of 16 ws (length ws div 16)))))"

lemma length_sha_schedule: "length (sha_schedule n ws) = n + length ws"
  by (induction n ws rule: sha_schedule.induct) simp_all

lemma length_sha_rounds: "length st = 8 \<Longrightarrow> length (foldl sha_round st kws) = 8"
  by (induction kws arbitrary: st) (simp_all add: sha_round_def Let_def)

lemma length_sha_blocks: "length hs = 8 \<Longrightarrow> length (foldl sha_block hs bs) = 8"
  by (induction bs arbitrary: hs) (simp_all add: sha_block_def length_sha_rounds)

lemma length_concat_const: "(\<forall>x \<in> set xs. length x = k) \<Longrightarrow> length (concat xs) = k * length xs"
  by (induction xs) auto

lemma length_sha256 [simp]: "length (sha256_Sum256 m) = 32"
proof -
  have "length (foldl sha_block sha_H0 bs) = 8" for bs
    by (rule length_sha_blocks) (simp add: sha_H0_def)
  then show ?thesis
    by (simp add: sha256_Sum256_def Let_def length_concat_const [where k = 4] be_bytes_def)
qed

text \<open>\<^verbatim>\<open>fmt\<close>'s \<^verbatim>\<open>%x\<close> of a digest, and \<^verbatim>\<open>hex.EncodeToString\<close> of it, are the same text.\<close>

definition sha256_hex :: "bytes \<Rightarrow> string" where
  "sha256_hex b = hex_EncodeToString (sha256_Sum256 b)"

lemma length_sha256_hex [simp]: "length (sha256_hex b) = 64"
  by (simp add: sha256_hex_def)

lemma sha256_hex_eq [simp]: "sha256_hex a = sha256_hex b \<longleftrightarrow> sha256_Sum256 a = sha256_Sum256 b"
  by (simp add: sha256_hex_def hex.encode_inj)

lemma sha256_hex_no_newline [simp]: "newline \<notin> set (sha256_hex b)"
  by (simp add: sha256_hex_def hex.encode_no_newline)

end
