(* ===== verification/Go_Time.thy ===== *)
theory Go_Time
  imports Go_Strings
begin

text \<open>
  What the program uses of Go's \<^verbatim>\<open>time\<close> package. A \<^verbatim>\<open>time.Duration\<close> is a signed 64-bit number of
  nanoseconds. An instant is the number of nanoseconds since year 1, the epoch in which Go keeps a
  \<^verbatim>\<open>time.Time\<close>; the wall clock is a parameter of every definition that reads it. \<open>ParseDuration\<close> takes
  the fractional part of a component exactly, where Go goes through a \<^verbatim>\<open>float64\<close>.
\<close>

section \<open>Durations\<close>

abbreviation Microsecond :: duration where "Microsecond \<equiv> 1000"
abbreviation Millisecond :: duration where "Millisecond \<equiv> 1000000"
abbreviation Second :: duration where "Second \<equiv> 1000000000"
abbreviation Minute :: duration where "Minute \<equiv> 60000000000"
abbreviation Hour :: duration where "Hour \<equiv> 3600000000000"

definition minDuration :: duration where "minDuration = - (2 ^ 63)"
definition maxDuration :: duration where "maxDuration = 2 ^ 63 - 1"

text \<open>\<^verbatim>\<open>Duration.Round\<close> to a positive multiple: half away from zero, saturating on overflow.\<close>

definition Round :: "duration \<Rightarrow> duration \<Rightarrow> duration" where
  "Round d m =
     (if m \<le> 0 then d
      else if d < 0 then
        (let r = (- d) mod m in
         if r + r < m then d + r
         else if int64_ok (d - m + r) then d - m + r else minDuration)
      else
        (let r = d mod m in
         if r + r < m then d - r
         else if int64_ok (d + m - r) then d + m - r else maxDuration))"

text \<open>\<^verbatim>\<open>Duration.String\<close>: a fraction of \<open>k\<close> decimal digits without trailing zeros, then the unit.\<close>

definition frac_text :: "nat \<Rightarrow> nat \<Rightarrow> string" where
  "frac_text k v =
     (let ds = rev (dropWhile (\<lambda>c. c = CHR ''0'') (map (\<lambda>i. digit (v div 10 ^ i mod 10)) [0..<k]))
      in if ds = [] then [] else CHR ''.'' # ds)"

definition Duration_String :: "duration \<Rightarrow> string" where
  "Duration_String d =
     (let u = nat \<bar>d\<bar>; sign = (if d < 0 then ''-'' else []) in
      if u = 0 then ''0s''
      else if u < 1000 then sign @ dec_nat u @ ''ns''
      else if u < 1000000
        then sign @ dec_nat (u div 1000) @ frac_text 3 (u mod 1000) @
             [CHR 0xC2, CHR 0xB5, CHR ''s'']
      else if u < 1000000000
        then sign @ dec_nat (u div 1000000) @ frac_text 6 (u mod 1000000) @ ''ms''
      else
        (let secs = u div 1000000000; mins = secs div 60; hours = mins div 60 in
         sign @ (if hours > 0 then dec_nat hours @ ''h'' else []) @
         (if mins > 0 then dec_nat (mins mod 60) @ ''m'' else []) @
         dec_nat (secs mod 60) @ frac_text 9 (u mod 1000000000) @ ''s''))"

section \<open>Parsing durations\<close>

definition unit_ns :: "string \<Rightarrow> nat option" where
  "unit_ns u =
     map_of [(''ns'', 1), (''us'', 1000), ([CHR 0xC2, CHR 0xB5, CHR ''s''], 1000),
       ([CHR 0xCE, CHR 0xBC, CHR ''s''], 1000), (''ms'', 1000000), (''s'', 1000000000),
       (''m'', 60000000000), (''h'', 3600000000000)] u"

text \<open>\<^verbatim>\<open>leadingInt\<close>: the leading decimal digits and the rest, \<open>None\<close> on overflow of \<open>2 ^ 63\<close>.\<close>

fun leading_int :: "nat \<Rightarrow> string \<Rightarrow> (nat \<times> string) option" where
  "leading_int x [] = Some (x, [])"
| "leading_int x (c # s) =
     (if \<not> is_digit c then Some (x, c # s)
      else if x > 2 ^ 63 div 10 \<or> 10 * x + digit_val c > 2 ^ 63 then None
      else leading_int (10 * x + digit_val c) s)"

text \<open>\<^verbatim>\<open>leadingFraction\<close>: digits that no longer fit are skipped, never an error.\<close>

fun leading_fraction :: "nat \<Rightarrow> nat \<Rightarrow> bool \<Rightarrow> string \<Rightarrow> nat \<times> nat \<times> string" where
  "leading_fraction x scale ovf [] = (x, scale, [])"
| "leading_fraction x scale ovf (c # s) =
     (if \<not> is_digit c then (x, scale, c # s)
      else if ovf \<or> x > (2 ^ 63 - 1) div 10 \<or> 10 * x + digit_val c > 2 ^ 63
        then leading_fraction x scale True s
      else leading_fraction (10 * x + digit_val c) (10 * scale) ovf s)"

text \<open>One component of a duration text: its value in nanoseconds and the remaining text.\<close>

definition duration_part :: "string \<Rightarrow> (nat \<times> string) option" where
  "duration_part s =
     (if s = [] \<or> \<not> (hd s = CHR ''.'' \<or> is_digit (hd s)) then None
      else case leading_int 0 s of
        None \<Rightarrow> None
      | Some (v, s1) \<Rightarrow>
          (let pre = (length s1 \<noteq> length s);
               dot = (s1 \<noteq> [] \<and> hd s1 = CHR ''.'');
               (f, scale, s2) = (if dot then leading_fraction 0 1 False (tl s1) else (0, 1, s1));
               post = (dot \<and> length s2 \<noteq> length (tl s1));
               u = takeWhile (\<lambda>c. \<not> (c = CHR ''.'' \<or> is_digit c)) s2;
               s3 = dropWhile (\<lambda>c. \<not> (c = CHR ''.'' \<or> is_digit c)) s2
           in if \<not> pre \<and> \<not> post then None
              else case unit_ns u of
                None \<Rightarrow> None
              | Some unit \<Rightarrow>
                  if v > 2 ^ 63 div unit then None
                  else (let w = v * unit + f * unit div scale in
                        if w > 2 ^ 63 then None else Some (w, s3))))"

lemma leading_int_length: "leading_int x s = Some (v, r) \<Longrightarrow> length r \<le> length s"
  by (induction x s rule: leading_int.induct) (auto split: if_splits)

lemma leading_fraction_length:
  "leading_fraction x sc ov s = (f, sc', r) \<Longrightarrow> length r \<le> length s"
  by (induction x sc ov s rule: leading_fraction.induct) (auto split: if_splits)

lemma duration_part_shorter:
  assumes "duration_part s = Some (w, r)"
  shows "length r < length s"
proof -
  let ?P = "\<lambda>c. \<not> (c = CHR ''.'' \<or> is_digit c)"
  from assms obtain v s1 where s1: "leading_int 0 s = Some (v, s1)"
    by (auto simp: duration_part_def split: if_splits option.splits)
  obtain f sc s2 where
    s2: "(if s1 \<noteq> [] \<and> hd s1 = CHR ''.'' then leading_fraction 0 1 False (tl s1) else (0, 1, s1)) =
      (f, sc, s2)"
    by (metis prod_cases3)
  from assms s1 s2 have r: "r = dropWhile ?P s2" and u: "unit_ns (takeWhile ?P s2) \<noteq> None"
    by (auto simp: duration_part_def Let_def split: if_splits option.splits)
  from u have "takeWhile ?P s2 \<noteq> []"
    by (auto simp: unit_ns_def)
  then have "length r < length s2"
    using r by (metis add_lessD1 length_append length_greater_0_conv less_add_same_cancel2
        takeWhile_dropWhile_id)
  moreover have "length s2 \<le> length s1"
    using s2 leading_fraction_length [of 0 1 False "tl s1" f sc s2]
    by (cases s1) (auto split: if_splits)
  ultimately show ?thesis
    using leading_int_length [OF s1] by simp
qed

function duration_parts :: "nat \<Rightarrow> string \<Rightarrow> nat option" where
  "duration_parts d s =
     (if s = [] then Some d
      else case duration_part s of
        None \<Rightarrow> None
      | Some (w, r) \<Rightarrow> if d + w > 2 ^ 63 then None else duration_parts (d + w) r)"
  by pat_completeness auto
termination
  by (relation "measure (\<lambda>(d, s). length s)") (auto dest: duration_part_shorter)

declare duration_parts.simps [simp del]

definition ParseDuration :: "string \<Rightarrow> duration option" where
  "ParseDuration s =
     (let neg = (s \<noteq> [] \<and> hd s = CHR ''-'');
          r = (if s \<noteq> [] \<and> (hd s = CHR ''-'' \<or> hd s = CHR ''+'') then tl s else s)
      in if r = ''0'' then Some 0
         else if r = [] then None
         else case duration_parts 0 r of
           None \<Rightarrow> None
         | Some d \<Rightarrow>
             if neg then Some (- int d)
             else if d > 2 ^ 63 - 1 then None else Some (int d))"

lemma duration_parts_bound:
  "duration_parts d s = Some e \<Longrightarrow> d \<le> 2 ^ 63 \<Longrightarrow> e \<le> 2 ^ 63"
proof (induction d s rule: duration_parts.induct)
  case (1 d s)
  then show ?case
    by (subst (asm) (2) duration_parts.simps) (auto split: if_splits option.splits)
qed

lemma ParseDuration_int64: "ParseDuration s = Some d \<Longrightarrow> int64_ok d"
proof -
  have "int e \<le> 2 ^ 63" if "duration_parts 0 r = Some e" for r e
    using duration_parts_bound [OF that]
    by (metis of_nat_le_iff of_nat_numeral of_nat_power zero_le)
  then show "ParseDuration s = Some d \<Longrightarrow> int64_ok d"
    by (fastforce simp: ParseDuration_def int64_ok_def Let_def split: if_splits option.splits)
qed

section \<open>Instants\<close>

text \<open>
  \<^verbatim>\<open>time.Unix(sec, 0)\<close> adds the offset between 1970 and year 1 with 64-bit wrap-around. A clock
  reading is given as nanoseconds since 1970 and carries the same offset.
\<close>

definition unix_to_internal :: int where
  "unix_to_internal = 62135596800"

definition time_Unix :: "int64 \<Rightarrow> int" where
  "time_Unix sec = wrap64 (sec + unix_to_internal) * Second"

definition time_Now :: "int \<Rightarrow> int" where
  "time_Now now = now + unix_to_internal * Second"

text \<open>\<^verbatim>\<open>Time.Sub\<close> saturates at the ends of the range of a duration.\<close>

definition time_Sub :: "int \<Rightarrow> int \<Rightarrow> duration" where
  "time_Sub t u =
     (if int64_ok (t - u) then t - u else if t < u then minDuration else maxDuration)"

text \<open>\<^verbatim>\<open>time.Since(t)\<close> at clock reading \<open>now\<close>, and \<^verbatim>\<open>time.Now().Unix()\<close>.\<close>

definition time_Since :: "int \<Rightarrow> int \<Rightarrow> duration" where
  "time_Since now t = time_Sub (time_Now now) t"

definition now_Unix :: "int \<Rightarrow> int64" where
  "now_Unix now = now div Second"

text \<open>
  The saturation and the wrap-around of \<open>time_Unix\<close> never make a far-away second look near:
  for any clock reading between 1970 and year 2262, a bound well inside the range of a duration
  is met exactly when it is met in plain arithmetic.
\<close>

lemma time_Since_Unix_bound:
  assumes now: "0 \<le> now" "now < 2 ^ 63" and sec: "int64_ok sec"
    and b: "0 \<le> b" "b < 2 ^ 62"
  shows "\<bar>time_Since now (time_Unix sec)\<bar> \<le> b \<longleftrightarrow> \<bar>now - sec * Second\<bar> \<le> b"
proof (cases "sec + unix_to_internal < 2 ^ 63")
  case True
  with sec have "wrap64 (sec + unix_to_internal) = sec + unix_to_internal"
    by (intro wrap64_id) (simp add: int64_ok_def unix_to_internal_def)
  then have "time_Now now - time_Unix sec = now - sec * Second"
    by (simp add: time_Unix_def time_Now_def algebra_simps)
  with b show ?thesis
    by (auto simp: time_Since_def time_Sub_def int64_ok_def minDuration_def maxDuration_def)
next
  case False
  with sec have w: "wrap64 (sec + unix_to_internal) = sec + unix_to_internal - 2 ^ 64"
    by (intro wrap64_overflow) (simp_all add: int64_ok_def unix_to_internal_def)
  have "2 ^ 63 \<le> time_Now now - time_Unix sec"
    using sec now unfolding time_Unix_def time_Now_def w
    by (simp add: int64_ok_def unix_to_internal_def)
  then have "time_Since now (time_Unix sec) = maxDuration"
    by (simp add: time_Since_def time_Sub_def int64_ok_def)
  moreover have "b < \<bar>now - sec * Second\<bar>"
    using False now b by (simp add: unix_to_internal_def)
  ultimately show ?thesis
    using b by (simp add: maxDuration_def)
qed

end
