(* ===== verification/Config.thy ===== *)
theory Config
  imports Go_Crypto Go_Time
begin

text \<open>
  The package \<^verbatim>\<open>internal/config\<close>: the configuration record, its loading from the environment,
  its validation, and the accessors the other components use. The environment is a parameter
  \<open>getenv\<close>, a total function as \<^verbatim>\<open>os.Getenv\<close> is: an unset variable reads as the empty string.
\<close>

section \<open>The configuration\<close>

abbreviation DriftRefuse :: string where "DriftRefuse \<equiv> ''refuse''"
abbreviation DriftOverwrite :: string where "DriftOverwrite \<equiv> ''overwrite''"
abbreviation DriftOverwriteWithApproval :: string where
  "DriftOverwriteWithApproval \<equiv> ''overwrite-with-approval''"

record config =
  ServerEndpoint :: string
  ServerToken :: string
  ServerPublicKey :: string
  ClusterID :: string
  PollInterval :: duration
  WSEnabled :: bool
  ReaderTokenPath :: string
  WriterTokenPath :: string
  SpillDir :: string
  WriterEnabled :: bool
  DryRunFirst :: bool
  DriftPolicy :: string
  AllowDelete :: bool
  InformersEnabled :: "string list"
  ProtectedNamespaces :: "string list"
  MetricsAddr :: string
  LogLevel :: string
  DrainStallTimeout :: duration

datatype config_error =
    EndpointRequired
  | TokenRequired
  | PublicKeyInvalid nat \<comment> \<open>the length of the configured text\<close>
  | DriftPolicyInvalid string
  | LogLevelInvalid string

definition DefaultInformers :: "string list" where
  "DefaultInformers =
     [''deployments'', ''statefulsets'', ''daemonsets'', ''replicasets'',
      ''pods'', ''services'', ''ingresses'', ''configmaps'', ''secrets'', ''nodes'',
      ''namespaces'', ''persistentvolumeclaims'',
      ''roles'', ''rolebindings'', ''clusterroles'', ''clusterrolebindings'',
      ''serviceaccounts'', ''networkpolicies'', ''poddisruptionbudgets'',
      ''certificates'', ''issuers'', ''clusterissuers'']"

section \<open>Reading the environment\<close>

definition envOr :: "(string \<Rightarrow> string) \<Rightarrow> string \<Rightarrow> string \<Rightarrow> string" where
  "envOr getenv key def = (if getenv key \<noteq> '''' then getenv key else def)"

definition envBool :: "(string \<Rightarrow> string) \<Rightarrow> string \<Rightarrow> bool \<Rightarrow> bool" where
  "envBool getenv key def =
     (if getenv key = '''' then def
      else case ParseBool (getenv key) of None \<Rightarrow> def | Some b \<Rightarrow> b)"

definition envList :: "(string \<Rightarrow> string) \<Rightarrow> string \<Rightarrow> string list \<Rightarrow> string list" where
  "envList getenv key def =
     (if getenv key = '''' then def
      else let out = filter (\<lambda>p. p \<noteq> '''') (map TrimSpace (Split (getenv key) CHR '','')) in
           if out = [] then def else out)"

definition envDuration :: "(string \<Rightarrow> string) \<Rightarrow> string \<Rightarrow> duration \<Rightarrow> duration" where
  "envDuration getenv key def =
     (if getenv key = '''' then def
      else case ParseDuration (getenv key) of None \<Rightarrow> def | Some d \<Rightarrow> d)"

section \<open>Methods\<close>

text \<open>Base64 is tried first, hexadecimal second; either must give the 32 bytes of a key.\<close>

definition PublicKey :: "config \<Rightarrow> config_error + bytes" where
  "PublicKey c =
     (case base64_DecodeString (ServerPublicKey c) of
        Some raw \<Rightarrow>
          if length raw = 32 then Inr raw
          else (case hex_DecodeString (ServerPublicKey c) of
             Some raw' \<Rightarrow> if length raw' = 32 then Inr raw'
                          else Inl (PublicKeyInvalid (length (ServerPublicKey c)))
           | None \<Rightarrow> Inl (PublicKeyInvalid (length (ServerPublicKey c))))
      | None \<Rightarrow>
          (case hex_DecodeString (ServerPublicKey c) of
             Some raw' \<Rightarrow> if length raw' = 32 then Inr raw'
                          else Inl (PublicKeyInvalid (length (ServerPublicKey c)))
           | None \<Rightarrow> Inl (PublicKeyInvalid (length (ServerPublicKey c)))))"

definition Validate :: "config \<Rightarrow> config_error option" where
  "Validate c =
     (if ServerEndpoint c = '''' then Some EndpointRequired
      else if ServerToken c = '''' then Some TokenRequired
      else case PublicKey c of
        Inl e \<Rightarrow> Some e
      | Inr _ \<Rightarrow>
          if DriftPolicy c \<notin> {DriftRefuse, DriftOverwrite, DriftOverwriteWithApproval}
            then Some (DriftPolicyInvalid (DriftPolicy c))
          else if LogLevel c \<notin> {''debug'', ''info'', ''warn'', ''error''}
            then Some (LogLevelInvalid (LogLevel c))
          else None)"

definition load_env :: "(string \<Rightarrow> string) \<Rightarrow> config" where
  "load_env getenv =
     \<lparr> ServerEndpoint = getenv ''SERVER_ENDPOINT'',
       ServerToken = getenv ''SERVER_TOKEN'',
       ServerPublicKey = getenv ''SERVER_PUBLIC_KEY'',
       ClusterID = getenv ''CLUSTER_ID'',
       PollInterval = envDuration getenv ''POLL_INTERVAL'' (30 * Second),
       WSEnabled = envBool getenv ''WS_ENABLED'' True,
       ReaderTokenPath = envOr getenv ''READER_TOKEN_PATH'' ''/var/run/secrets/agent-reader/token'',
       WriterTokenPath = envOr getenv ''WRITER_TOKEN_PATH'' ''/var/run/secrets/agent-writer/token'',
       SpillDir = envOr getenv ''SPILL_DIR'' ''/var/lib/k8s-agent/spill'',
       WriterEnabled = envBool getenv ''WRITER_ENABLED'' True,
       DryRunFirst = envBool getenv ''DRY_RUN_FIRST'' True,
       DriftPolicy = envOr getenv ''DRIFT_POLICY'' DriftRefuse,
       AllowDelete = envBool getenv ''ALLOW_DELETE'' True,
       InformersEnabled = envList getenv ''INFORMERS_ENABLED'' DefaultInformers,
       ProtectedNamespaces =
         envList getenv ''PROTECTED_NAMESPACES'' [''kube-system'', ''k8s-agent-system''],
       MetricsAddr = envOr getenv ''METRICS_ADDR'' '':9090'',
       LogLevel = envOr getenv ''LOG_LEVEL'' ''info'',
       DrainStallTimeout = envDuration getenv ''DRAIN_STALL_TIMEOUT'' (15 * Minute) \<rparr>"

definition Load :: "(string \<Rightarrow> string) \<Rightarrow> config_error + config" where
  "Load getenv =
     (let c = load_env getenv in
      case Validate c of Some e \<Rightarrow> Inl e | None \<Rightarrow> Inr c)"

definition EndpointBase :: "config \<Rightarrow> string" where
  "EndpointBase c = TrimRight (ServerEndpoint c) CHR ''/''"

fun protected_in :: "string list \<Rightarrow> string \<Rightarrow> bool" where
  "protected_in [] ns = False"
| "protected_in (p # ps) ns = (if p = ns then True else protected_in ps ns)"

definition ProtectedNamespace :: "config \<Rightarrow> string \<Rightarrow> bool" where
  "ProtectedNamespace c ns = protected_in (ProtectedNamespaces c) ns"

section \<open>Well-formed configurations\<close>

text \<open>What every configuration that \<open>Load\<close> returns satisfies.\<close>

definition config_ok :: "config \<Rightarrow> bool" where
  "config_ok c \<longleftrightarrow>
     ServerEndpoint c \<noteq> '''' \<and> ServerToken c \<noteq> '''' \<and>
     (\<exists>k. PublicKey c = Inr k \<and> length k = 32) \<and>
     DriftPolicy c \<in> {DriftRefuse, DriftOverwrite, DriftOverwriteWithApproval} \<and>
     LogLevel c \<in> {''debug'', ''info'', ''warn'', ''error''} \<and>
     InformersEnabled c \<noteq> [] \<and> ProtectedNamespaces c \<noteq> [] \<and>
     (\<forall>n \<in> set (InformersEnabled c) \<union> set (ProtectedNamespaces c). n \<noteq> '''') \<and>
     ReaderTokenPath c \<noteq> '''' \<and> WriterTokenPath c \<noteq> '''' \<and> SpillDir c \<noteq> '''' \<and>
     int64_ok (PollInterval c) \<and> int64_ok (DrainStallTimeout c)"

lemma protected_in_iff: "protected_in ps ns \<longleftrightarrow> ns \<in> set ps"
  by (induction ps) auto

lemma ProtectedNamespace_iff: "ProtectedNamespace c ns \<longleftrightarrow> ns \<in> set (ProtectedNamespaces c)"
  by (simp add: ProtectedNamespace_def protected_in_iff)

lemma envList_nonempty: "def \<noteq> [] \<Longrightarrow> envList getenv key def \<noteq> []"
  by (simp add: envList_def Let_def)

lemma envList_entries: "\<forall>n \<in> set def. n \<noteq> '''' \<Longrightarrow> \<forall>n \<in> set (envList getenv key def). n \<noteq> ''''"
  by (auto simp: envList_def Let_def)

lemma envOr_nonempty: "def \<noteq> '''' \<Longrightarrow> envOr getenv key def \<noteq> ''''"
  by (simp add: envOr_def)

lemma envDuration_int64: "int64_ok def \<Longrightarrow> int64_ok (envDuration getenv key def)"
  by (auto simp: envDuration_def split: option.splits dest: ParseDuration_int64)

lemma PublicKey_length: "PublicKey c = Inr k \<Longrightarrow> length k = 32"
  by (auto simp: PublicKey_def split: option.splits if_splits)

lemma Validate_None:
  "Validate c = None \<Longrightarrow>
     ServerEndpoint c \<noteq> '''' \<and> ServerToken c \<noteq> '''' \<and> (\<exists>k. PublicKey c = Inr k) \<and>
     DriftPolicy c \<in> {DriftRefuse, DriftOverwrite, DriftOverwriteWithApproval} \<and>
     LogLevel c \<in> {''debug'', ''info'', ''warn'', ''error''}"
  by (simp add: Validate_def split: sum.splits if_splits)

lemma base64_of_hex_length:
  assumes "base64_DecodeString (hex_EncodeToString k) = Some raw"
  shows "length raw * 4 = 2 * length k * 3"
proof -
  have "CHR ''='' \<notin> set (hex_EncodeToString k)"
    using hex_encode_chars [of "CHR ''=''" k] by auto
  moreover have "filter (\<lambda>c. c \<noteq> newline \<and> c \<noteq> CHR 0x0D) (hex_EncodeToString k) = hex_EncodeToString k"
    using hex_encode_chars [of "CHR 0x0D" k] hex.encode_no_newline [of k] by (intro filter_True) auto
  moreover from this assms obtain xs where
    "b64_quads (hex_EncodeToString k) = Some xs" "length raw = length xs"
    by (auto simp: base64_DecodeString_def)
  ultimately show ?thesis
    using b64_quads_length by fastforce
qed

lemma PublicKey_base64:
  assumes "ServerPublicKey c = base64_EncodeToString k" "length k = 32"
  shows "PublicKey c = Inr k"
  using assms by (simp add: PublicKey_def b64.decode_encode)

lemma PublicKey_hex:
  assumes "ServerPublicKey c = hex_EncodeToString k" "length k = 32"
  shows "PublicKey c = Inr k"
proof -
  have "length raw \<noteq> 32" if "base64_DecodeString (hex_EncodeToString k) = Some raw" for raw
    using base64_of_hex_length [OF that] assms by simp
  then show ?thesis
    using assms by (simp add: PublicKey_def hex.decode_encode split: option.splits)
qed

text \<open>A concrete environment with the three required settings, and the configuration it gives.\<close>

definition demo_env :: "string \<Rightarrow> string" where
  "demo_env = (\<lambda>_. [])(''SERVER_ENDPOINT'' := ''http://cp'', ''SERVER_TOKEN'' := ''t'',
     ''SERVER_PUBLIC_KEY'' := base64_EncodeToString (replicate 32 CHR ''k''))"

definition demo_config :: config where
  "demo_config = load_env demo_env"

lemma demo_PublicKey [simp]: "PublicKey demo_config = Inr (replicate 32 CHR ''k'')"
  by (rule PublicKey_base64) (simp_all add: demo_config_def demo_env_def load_env_def)

lemma demo_config_fields [simp]:
  "WriterEnabled demo_config" "DryRunFirst demo_config" "AllowDelete demo_config"
  "ClusterID demo_config = ''''" "DriftPolicy demo_config = DriftRefuse"
  "ProtectedNamespaces demo_config = [''kube-system'', ''k8s-agent-system'']"
  "DrainStallTimeout demo_config = 15 * Minute"
  by (simp_all add: demo_config_def demo_env_def load_env_def envBool_def envOr_def envList_def
      envDuration_def)

section \<open>Properties\<close>

text \<open>
  Every configuration that \<^verbatim>\<open>config.Load\<close> returns is well formed: the endpoint and token are
  set, the public key decodes to exactly 32 bytes, the drift policy and log level are in their
  domains, the informer and protected-namespace lists are non-empty with non-empty entries (a
  blank or comma-only variable falls back to the default, so the protection cannot be switched
  off by accident), and the durations are valid 64-bit values.
\<close>

theorem Load_config_ok:
  assumes "Load getenv = Inr c"
  shows "config_ok c"
proof -
  from assms have c: "c = load_env getenv" and v: "Validate c = None"
    by (auto simp: Load_def Let_def split: option.splits)
  from Validate_None [OF v] PublicKey_length have
    "ServerEndpoint c \<noteq> '''' \<and> ServerToken c \<noteq> '''' \<and> (\<exists>k. PublicKey c = Inr k \<and> length k = 32) \<and>
     DriftPolicy c \<in> {DriftRefuse, DriftOverwrite, DriftOverwriteWithApproval} \<and>
     LogLevel c \<in> {''debug'', ''info'', ''warn'', ''error''}"
    by blast
  moreover have "InformersEnabled c \<noteq> []" "ProtectedNamespaces c \<noteq> []"
    using c by (simp_all add: load_env_def envList_nonempty DefaultInformers_def)
  moreover have "\<forall>n \<in> set (InformersEnabled c) \<union> set (ProtectedNamespaces c). n \<noteq> ''''"
    using c envList_entries [of DefaultInformers getenv "''INFORMERS_ENABLED''"]
      envList_entries [of "[''kube-system'', ''k8s-agent-system'']" getenv "''PROTECTED_NAMESPACES''"]
    by (auto simp: load_env_def DefaultInformers_def)
  moreover have "ReaderTokenPath c \<noteq> ''''" "WriterTokenPath c \<noteq> ''''" "SpillDir c \<noteq> ''''"
    using c by (simp_all add: load_env_def envOr_nonempty)
  moreover have "int64_ok (30 * Second)" "int64_ok (15 * Minute)"
    by (simp_all add: int64_ok_def)
  then have "int64_ok (PollInterval c)" "int64_ok (DrainStallTimeout c)"
    using c unfolding load_env_def config.simps by (auto intro: envDuration_int64)
  ultimately show ?thesis
    unfolding config_ok_def by blast
qed

theorem Load_config_ok_witness: "config_ok demo_config"
proof -
  have "Load demo_env = Inr demo_config"
    unfolding Load_def Let_def demo_config_def [symmetric] Validate_def demo_PublicKey
    by (simp add: demo_config_def demo_env_def load_env_def envOr_def)
  then show ?thesis
    by (rule Load_config_ok)
qed

text \<open>
  Both documented encodings of a 32-byte public key are read back as that key: the standard
  base64 text, and the plain hexadecimal text, although the latter is itself valid base64 (of 48
  other bytes).
\<close>

theorem PublicKey_encodings:
  assumes "length k = 32"
  shows "PublicKey (c\<lparr>ServerPublicKey := base64_EncodeToString k\<rparr>) = Inr k \<and>
    PublicKey (c\<lparr>ServerPublicKey := hex_EncodeToString k\<rparr>) = Inr k"
  using assms PublicKey_base64 PublicKey_hex by simp

theorem PublicKey_encodings_witness:
  "PublicKey ((load_env (\<lambda>_. []))
     \<lparr>ServerPublicKey := hex_EncodeToString (replicate 32 CHR 0xFF)\<rparr>) = Inr (replicate 32 CHR 0xFF)"
  using PublicKey_encodings [of "replicate 32 CHR 0xFF" "load_env (\<lambda>_. [])"] by simp

end
