(* ===== verification/Protocol.thy ===== *)
theory Protocol
  imports Config
begin

text \<open>
  The package \<^verbatim>\<open>internal/protocol\<close>: the wire types, the canonical signing payload with signing
  and verification, and the HTTP client. Ed25519 is a pair of parameters (\<open>sign\<close>, \<open>verify\<close>); the
  HTTP transport and the JSON decoder of a response are parameters of the client. Texts are
  modelled up to the place where the source appends the text of a library's error value.
\<close>

section \<open>Wire types (types.go)\<close>

abbreviation OpAdd :: string where "OpAdd \<equiv> ''add''"
abbreviation OpUpdate :: string where "OpUpdate \<equiv> ''update''"
abbreviation OpDelete :: string where "OpDelete \<equiv> ''delete''"
abbreviation OpSync :: string where "OpSync \<equiv> ''sync''"

abbreviation VerbApply :: string where "VerbApply \<equiv> ''apply''"
abbreviation VerbPatch :: string where "VerbPatch \<equiv> ''patch''"
abbreviation VerbDelete :: string where "VerbDelete \<equiv> ''delete''"
abbreviation VerbDrainNode :: string where "VerbDrainNode \<equiv> ''drain-node''"
abbreviation VerbUncordonNode :: string where "VerbUncordonNode \<equiv> ''uncordon-node''"
abbreviation VerbHelmInstall :: string where "VerbHelmInstall \<equiv> ''helm-install''"
abbreviation VerbHelmUpgrade :: string where "VerbHelmUpgrade \<equiv> ''helm-upgrade''"
abbreviation VerbHelmUninstall :: string where "VerbHelmUninstall \<equiv> ''helm-uninstall''"
abbreviation VerbCertRotate :: string where "VerbCertRotate \<equiv> ''cert-rotate''"
abbreviation VerbClusterUpgrade :: string where "VerbClusterUpgrade \<equiv> ''cluster-upgrade''"

abbreviation StatusReceived :: string where "StatusReceived \<equiv> ''received''"
abbreviation StatusValidating :: string where "StatusValidating \<equiv> ''validating''"
abbreviation StatusDryRun :: string where "StatusDryRun \<equiv> ''dry-run''"
abbreviation StatusApplying :: string where "StatusApplying \<equiv> ''applying''"
abbreviation StatusProgress :: string where "StatusProgress \<equiv> ''progress''"
abbreviation StatusSucceeded :: string where "StatusSucceeded \<equiv> ''succeeded''"
abbreviation StatusFailed :: string where "StatusFailed \<equiv> ''failed''"
abbreviation StatusRefused :: string where "StatusRefused \<equiv> ''refused''"

abbreviation PatchStrategic :: string where "PatchStrategic \<equiv> ''strategic''"
abbreviation PatchMerge :: string where "PatchMerge \<equiv> ''merge''"
abbreviation PatchJSON :: string where "PatchJSON \<equiv> ''json''"

record resource_ref =
  rr_Group :: string
  rr_Version :: string
  rr_Resource :: string
  rr_Namespace :: string
  rr_Name :: string

record inventory_event =
  ev_Op :: string
  ev_Ref :: resource_ref
  ev_ObjectJSON :: bytes
  ev_Timestamp :: int64

record inventory_batch =
  ib_ClusterID :: string
  ib_Seq :: int64
  ib_Full :: bool
  ib_Events :: "inventory_event list"

record inventory_ack =
  ack_OK :: bool
  ack_LastSeq :: int64
  ack_Error :: string

record helm_spec =
  h_ReleaseName :: string
  h_Namespace :: string
  h_ChartRef :: string
  h_Version :: string
  h_ValuesYAML :: bytes

record command =
  c_ID :: string
  c_Nonce :: string
  c_Timestamp :: int64
  c_Verb :: string
  c_Target :: resource_ref
  c_Payload :: bytes
  c_PatchType :: string
  c_Helm :: "helm_spec option"
  c_ExpectedHash :: string
  c_Override :: bool
  c_Signature :: string

record report =
  r_ClusterID :: string
  r_CommandID :: string
  r_Status :: string
  r_Message :: string
  r_Diff :: string
  r_Progress :: int
  r_Timestamp :: int64

record poll_request =
  pq_ClusterID :: string
  pq_Version :: string
  pq_Reports :: "report list"

text \<open>A slice of command pointers may hold a nil pointer: JSON's \<^verbatim>\<open>null\<close>.\<close>

record poll_response =
  pr_OK :: bool
  pr_Commands :: "command option list"

section \<open>Signing (sign.go)\<close>

definition SigningPayload :: "command \<Rightarrow> bytes" where
  "SigningPayload c =
     join_with newline
       [c_Nonce c, FormatInt (c_Timestamp c), c_ID c, c_Verb c,
        rr_Group (c_Target c), rr_Version (c_Target c), rr_Resource (c_Target c),
        rr_Namespace (c_Target c), rr_Name (c_Target c), c_PatchType c,
        sha256_hex (c_Payload c), c_ExpectedHash c, FormatBool (c_Override c)] @
     (case c_Helm c of
        None \<Rightarrow> []
      | Some h \<Rightarrow>
          newline # join_with newline
            [h_ReleaseName h, h_Namespace h, h_ChartRef h, h_Version h,
             sha256_hex (h_ValuesYAML h)])"

definition Sign :: "(bytes \<Rightarrow> bytes \<Rightarrow> bytes) \<Rightarrow> bytes \<Rightarrow> command \<Rightarrow> command" where
  "Sign sign priv c = c\<lparr>c_Signature := base64_EncodeToString (sign priv (SigningPayload c))\<rparr>"

datatype sig_error = NoSignature | SignatureNotBase64 | InvalidSignature

fun sig_error_text :: "sig_error \<Rightarrow> string" where
  "sig_error_text NoSignature = ''command has no signature''"
| "sig_error_text SignatureNotBase64 = ''signature is not valid base64: ''"
| "sig_error_text InvalidSignature = ''invalid command signature''"

definition VerifySignature ::
  "(bytes \<Rightarrow> bytes \<Rightarrow> bytes \<Rightarrow> bool) \<Rightarrow> bytes \<Rightarrow> command \<Rightarrow> sig_error option" where
  "VerifySignature verify pub c =
     (if c_Signature c = '''' then Some NoSignature
      else case base64_DecodeString (c_Signature c) of
        None \<Rightarrow> Some SignatureNotBase64
      | Some sig \<Rightarrow>
          if \<not> verify pub (SigningPayload c) sig then Some InvalidSignature else None)"

section \<open>The HTTP client (http.go)\<close>

text \<open>
  What the transport answers to one POST: no request could be built, the round trip failed, the
  body could not be read, or a status with a body.
\<close>

datatype http_outcome =
    BuildFailed string
  | RoundTripFailed string
  | BodyReadFailed string
  | Response int bytes

datatype post_error =
    BuildError string
  | TransportError string
  | ReadError string
  | DecodeError
  | AuthError int string
  | StatusError int string

definition ellipsis :: string where
  "ellipsis = [CHR 0xE2, CHR 0x80, CHR 0xA6]"

definition truncate_text :: "string \<Rightarrow> nat \<Rightarrow> string" where
  "truncate_text s n = (if length s > n then take n s @ ellipsis else s)"

text \<open>
  \<open>post\<close> returns the decoded response or the error, and what it stores in the connectivity gauge
  (\<open>None\<close>: it leaves the gauge alone). At most 16 MiB of the body are read.
\<close>

definition post ::
  "(bytes \<Rightarrow> 'r option) \<Rightarrow> http_outcome \<Rightarrow> (post_error + 'r) \<times> bool option" where
  "post decode out =
     (case out of
        BuildFailed e \<Rightarrow> (Inl (BuildError e), None)
      | RoundTripFailed e \<Rightarrow> (Inl (TransportError e), Some False)
      | BodyReadFailed e \<Rightarrow> (Inl (ReadError e), Some False)
      | Response status raw \<Rightarrow>
          (let body = take (16 * 2 ^ 20) raw in
           if status = 200 then
             ((case decode body of None \<Rightarrow> Inl DecodeError | Some r \<Rightarrow> Inr r), Some True)
           else if status = 401 \<or> status = 403 then
             (Inl (AuthError status (truncate_text body 200)), Some False)
           else (Inl (StatusError status (truncate_text body 200)), Some False)))"

text \<open>\<^verbatim>\<open>NewClient\<close> trims the endpoint; \<^verbatim>\<open>Inventory\<close> and \<^verbatim>\<open>Poll\<close> are \<open>post\<close> at their paths.\<close>

definition NewClient_base :: "string \<Rightarrow> string" where
  "NewClient_base endpoint = TrimRight endpoint CHR ''/''"

definition Inventory ::
  "(string \<Rightarrow> inventory_batch \<Rightarrow> http_outcome) \<Rightarrow> (bytes \<Rightarrow> inventory_ack option) \<Rightarrow> string \<Rightarrow>
   inventory_batch \<Rightarrow> (post_error + inventory_ack) \<times> bool option" where
  "Inventory http decode base batch = post decode (http (base @ ''/k8s/inventory'') batch)"

definition Poll ::
  "(string \<Rightarrow> poll_request \<Rightarrow> http_outcome) \<Rightarrow> (bytes \<Rightarrow> poll_response option) \<Rightarrow> string \<Rightarrow>
   poll_request \<Rightarrow> (post_error + poll_response) \<times> bool option" where
  "Poll http decode base req = post decode (http (base @ ''/k8s/poll'') req)"

section \<open>Facts about the signing payload\<close>

definition signing_fields :: "command \<Rightarrow> string list" where
  "signing_fields c =
     [c_Nonce c, FormatInt (c_Timestamp c), c_ID c, c_Verb c,
      rr_Group (c_Target c), rr_Version (c_Target c), rr_Resource (c_Target c),
      rr_Namespace (c_Target c), rr_Name (c_Target c), c_PatchType c,
      sha256_hex (c_Payload c), c_ExpectedHash c, FormatBool (c_Override c)] @
     (case c_Helm c of
        None \<Rightarrow> []
      | Some h \<Rightarrow>
          [h_ReleaseName h, h_Namespace h, h_ChartRef h, h_Version h, sha256_hex (h_ValuesYAML h)])"

lemma SigningPayload_fields: "SigningPayload c = join_with newline (signing_fields c)"
  by (cases "c_Helm c") (simp_all add: SigningPayload_def signing_fields_def)

text \<open>No text field of the command contains a newline.\<close>

definition single_line :: "command \<Rightarrow> bool" where
  "single_line c \<longleftrightarrow>
     newline \<notin> set (c_Nonce c @ c_ID c @ c_Verb c @ rr_Group (c_Target c) @
       rr_Version (c_Target c) @ rr_Resource (c_Target c) @ rr_Namespace (c_Target c) @
       rr_Name (c_Target c) @ c_PatchType c @ c_ExpectedHash c) \<and>
     (case c_Helm c of
        None \<Rightarrow> True
      | Some h \<Rightarrow> newline \<notin> set (h_ReleaseName h @ h_Namespace h @ h_ChartRef h @ h_Version h))"

lemma single_line_fields: "single_line c \<Longrightarrow> \<forall>f \<in> set (signing_fields c). newline \<notin> set f"
  by (auto simp: single_line_def signing_fields_def split: option.splits)

lemma signing_fields_inj:
  assumes "signing_fields a = signing_fields b"
    and "sha256_Sum256 (c_Payload a) = sha256_Sum256 (c_Payload b) \<longrightarrow> c_Payload a = c_Payload b"
    and "\<And>g h. c_Helm a = Some g \<Longrightarrow> c_Helm b = Some h \<Longrightarrow>
      sha256_Sum256 (h_ValuesYAML g) = sha256_Sum256 (h_ValuesYAML h) \<Longrightarrow>
      h_ValuesYAML g = h_ValuesYAML h"
  shows "a\<lparr>c_Signature := s\<rparr> = b\<lparr>c_Signature := s\<rparr>"
proof (cases "c_Helm a"; cases "c_Helm b")
  assume "c_Helm a = None" "c_Helm b = None"
  with assms show ?thesis
    by (cases "c_Target a"; cases "c_Target b") (auto simp: signing_fields_def FormatInt_inj)
next
  fix g h assume gh: "c_Helm a = Some g" "c_Helm b = Some h"
  with assms(1) assms(3) [OF gh] have "g = h"
    by (cases g; cases h) (auto simp: signing_fields_def)
  with assms gh show ?thesis
    by (cases "c_Target a"; cases "c_Target b") (auto simp: signing_fields_def FormatInt_inj)
qed (use assms in \<open>auto simp: signing_fields_def\<close>)

lemma VerifySignature_None:
  "VerifySignature verify pub c = None \<longleftrightarrow>
     (\<exists>sig. c_Signature c \<noteq> '''' \<and> base64_DecodeString (c_Signature c) = Some sig \<and>
       verify pub (SigningPayload c) sig)"
  by (auto simp: VerifySignature_def split: option.splits)

lemma SigningPayload_signature [simp]: "SigningPayload (c\<lparr>c_Signature := s\<rparr>) = SigningPayload c"
  by (simp add: SigningPayload_def)

lemma VerifySignature_cong:
  "SigningPayload a = SigningPayload b \<Longrightarrow>
     VerifySignature verify pub (a\<lparr>c_Signature := s\<rparr>) = VerifySignature verify pub (b\<lparr>c_Signature := s\<rparr>)"
  by (simp add: VerifySignature_def split: option.splits)

section \<open>Properties\<close>

text \<open>
  C31. The canonical payload determines the command: two commands whose text fields contain no
  newline and that have the same signing payload agree in every field but the signature, unless
  they exhibit a SHA-256 collision. So a signature for one command is a signature for no other.
\<close>

theorem SigningPayload_injective:
  assumes "single_line a" "single_line b" "SigningPayload a = SigningPayload b"
    and "sha256_Sum256 (c_Payload a) = sha256_Sum256 (c_Payload b) \<longrightarrow> c_Payload a = c_Payload b"
    and "\<And>g h. c_Helm a = Some g \<Longrightarrow> c_Helm b = Some h \<Longrightarrow>
      sha256_Sum256 (h_ValuesYAML g) = sha256_Sum256 (h_ValuesYAML h) \<Longrightarrow>
      h_ValuesYAML g = h_ValuesYAML h"
  shows "a\<lparr>c_Signature := s\<rparr> = b\<lparr>c_Signature := s\<rparr>"
proof -
  have "signing_fields a = signing_fields b"
    using assms(1-3) single_line_fields
    by (intro join_with_inj [of _ newline]) (auto simp: SigningPayload_fields signing_fields_def)
  from this assms(4,5) show ?thesis
    by (rule signing_fields_inj)
qed

definition demo_command :: command where
  "demo_command =
     \<lparr> c_ID = ''c-1'', c_Nonce = ''n-1'', c_Timestamp = 1700000000, c_Verb = VerbPatch,
       c_Target = \<lparr>rr_Group = ''apps'', rr_Version = ''v1'', rr_Resource = ''deployments'',
                   rr_Namespace = ''default'', rr_Name = ''web''\<rparr>,
       c_Payload = ''{}'', c_PatchType = PatchMerge, c_Helm = None, c_ExpectedHash = '''',
       c_Override = False, c_Signature = '''' \<rparr>"

theorem SigningPayload_injective_witness:
  "demo_command\<lparr>c_Signature := ''x''\<rparr> = demo_command\<lparr>c_Signature := ''y'', c_Signature := ''x''\<rparr>"
proof -
  have "single_line demo_command" "single_line (demo_command\<lparr>c_Signature := ''y''\<rparr>)"
    by (simp_all add: single_line_def demo_command_def)
  then show ?thesis
    by (rule SigningPayload_injective) simp_all
qed

text \<open>
  C32. Without the restriction to single-line fields the payload is ambiguous: the format separates
  fields by newlines and escapes nothing, so moving a newline across a field boundary gives another
  command, here one with another target name and patch type, with the very same payload, which any
  signature of the first therefore also covers.
\<close>

theorem SigningPayload_ambiguous:
  "let a = demo_command\<lparr>c_PatchType := ''json'' @ [newline]\<rparr>;
       b = demo_command\<lparr>c_PatchType := '''',
             c_Target := (c_Target demo_command)\<lparr>rr_Name := ''web'' @ [newline] @ ''json''\<rparr>\<rparr>
   in SigningPayload a = SigningPayload b \<and> rr_Name (c_Target a) \<noteq> rr_Name (c_Target b) \<and>
      (\<forall>verify pub s. VerifySignature verify pub (a\<lparr>c_Signature := s\<rparr>) =
         VerifySignature verify pub (b\<lparr>c_Signature := s\<rparr>))"
proof -
  let ?a = "demo_command\<lparr>c_PatchType := ''json'' @ [newline]\<rparr>"
  let ?b = "demo_command\<lparr>c_PatchType := [],
     c_Target := (c_Target demo_command)\<lparr>rr_Name := ''web'' @ [newline] @ ''json''\<rparr>\<rparr>"
  have eq: "SigningPayload ?a = SigningPayload ?b"
    by (simp add: SigningPayload_def demo_command_def)
  then have "VerifySignature verify pub (?a\<lparr>c_Signature := s\<rparr>) =
      VerifySignature verify pub (?b\<lparr>c_Signature := s\<rparr>)" for verify pub s
    by (rule VerifySignature_cong)
  moreover have "rr_Name (c_Target ?a) \<noteq> rr_Name (c_Target ?b)"
    by (simp add: demo_command_def)
  ultimately show ?thesis
    using eq unfolding Let_def by blast
qed

text \<open>
  A command signed with a private key verifies under the matching public key, whatever its
  fields; the signature travels as base64 text and is decoded to the bytes Ed25519 produced. The
  key pair is any pair whose verification accepts the (non-empty) signatures of the signing key.
\<close>

theorem VerifySignature_Sign:
  assumes "\<And>m. verify pub m (sign priv m)" and "\<And>m. sign priv m \<noteq> []"
  shows "VerifySignature verify pub (Sign sign priv c) = None"
  using assms by (simp add: VerifySignature_None Sign_def b64.decode_encode)

theorem VerifySignature_Sign_witness:
  "VerifySignature (\<lambda>k m s. s = k @ m) ''key'' (Sign (\<lambda>k m. k @ m) ''key'' demo_command) = None"
  by (rule VerifySignature_Sign) simp_all

text \<open>
  The HTTP client classifies every outcome of a POST: it returns a value exactly on status 200
  with a decodable body, an \<^verbatim>\<open>AuthError\<close> exactly on 401 and 403, and sets the connectivity gauge to
  connected exactly on status 200; the excerpt of the body kept in an error is at most 203 bytes.
\<close>

theorem post_classification:
  "((\<exists>r. fst (post decode out) = Inr r) \<longleftrightarrow>
      (\<exists>raw. out = Response 200 raw \<and> decode (take (16 * 2 ^ 20) raw) \<noteq> None)) \<and>
   ((\<exists>st b. fst (post decode out) = Inl (AuthError st b)) \<longleftrightarrow>
      (\<exists>st raw. out = Response st raw \<and> st \<in> {401, 403})) \<and>
   (snd (post decode out) = Some True \<longleftrightarrow> (\<exists>raw. out = Response 200 raw)) \<and>
   (case fst (post decode out) of
      Inl (AuthError st b) \<Rightarrow> length b \<le> 203
    | Inl (StatusError st b) \<Rightarrow> length b \<le> 203
    | _ \<Rightarrow> True)"
  by (auto simp: post_def Let_def truncate_text_def ellipsis_def
      split: http_outcome.splits option.splits if_splits)

end
