(* ===== verification/Json.thy ===== *)
theory Json
  imports Go_Strings "HOL-Library.AList" "HOL-Library.List_Lexorder" "HOL-Library.Char_ord"
begin

text \<open>
  JSON values as Go programs hold them in an \<^verbatim>\<open>interface{}\<close>, and the printer of \<^verbatim>\<open>encoding/json\<close>: compact
  output, the keys of a map in byte order, strings escaped the way \<^verbatim>\<open>json.Marshal\<close> escapes them. A number
  is kept as the text it prints as. A Go map is an association list with distinct keys; what its
  users may rely on is the lookup, and the printed text is shown to depend on nothing else.
\<close>

section \<open>Values and objects\<close>

datatype json =
    JNull
  | JBool bool
  | JNum string
  | JStr string
  | JArr "json list"
  | JObj "(string \<times> json) list"

type_synonym jobj = "(string \<times> json) list"

text \<open>Indexing, assigning and deleting a map entry.\<close>

abbreviation obj_get :: "jobj \<Rightarrow> string \<Rightarrow> json option" where
  "obj_get \<equiv> map_of"

abbreviation obj_put :: "string \<Rightarrow> json \<Rightarrow> jobj \<Rightarrow> jobj" where
  "obj_put \<equiv> AList.update"

abbreviation obj_del :: "string \<Rightarrow> jobj \<Rightarrow> jobj" where
  "obj_del \<equiv> AList.delete"

text \<open>The type assertion \<^verbatim>\<open>m[k].(map[string]interface{})\<close>.\<close>

definition obj_map :: "jobj \<Rightarrow> string \<Rightarrow> jobj option" where
  "obj_map m k = (case obj_get m k of Some (JObj o') \<Rightarrow> Some o' | _ \<Rightarrow> None)"

text \<open>A map of strings as a JSON object.\<close>

definition of_strings :: "(string \<times> string) list \<Rightarrow> jobj" where
  "of_strings m = map (\<lambda>(k, v). (k, JStr v)) m"

text \<open>The value at a path of nested objects.\<close>

fun json_at :: "string list \<Rightarrow> jobj \<Rightarrow> json option" where
  "json_at [] m = Some (JObj m)"
| "json_at [k] m = obj_get m k"
| "json_at (k # ks) m = (case obj_map m k of Some m' \<Rightarrow> json_at ks m' | None \<Rightarrow> None)"

text \<open>Every object of a value has distinct keys, as every Go map has.\<close>

fun wf_json :: "json \<Rightarrow> bool" where
  "wf_json (JArr xs) \<longleftrightarrow> (\<forall>x \<in> set xs. wf_json x)"
| "wf_json (JObj m) \<longleftrightarrow> distinct (map fst m) \<and> (\<forall>p \<in> set m. wf_json (snd p))"
| "wf_json _ \<longleftrightarrow> True"

abbreviation wf_obj :: "jobj \<Rightarrow> bool" where
  "wf_obj m \<equiv> wf_json (JObj m)"

section \<open>Strings\<close>

text \<open>The length of the well-formed UTF-8 sequence a byte string starts with, if it does.\<close>

definition cont_byte :: "char \<Rightarrow> bool" where
  "cont_byte c \<longleftrightarrow> 0x80 \<le> (of_char c :: nat) \<and> (of_char c :: nat) \<le> 0xBF"

definition second_ok :: "nat \<Rightarrow> nat \<Rightarrow> bool" where
  "second_ok a b \<longleftrightarrow>
     (if a = 0xE0 then 0xA0 \<le> b \<and> b \<le> 0xBF
      else if a = 0xED then 0x80 \<le> b \<and> b \<le> 0x9F
      else if a = 0xF0 then 0x90 \<le> b \<and> b \<le> 0xBF
      else if a = 0xF4 then 0x80 \<le> b \<and> b \<le> 0x8F
      else 0x80 \<le> b \<and> b \<le> 0xBF)"

definition utf8_size :: "string \<Rightarrow> nat option" where
  "utf8_size s =
     (case s of
        [] \<Rightarrow> None
      | c # cs \<Rightarrow>
          (let a = (of_char c :: nat) in
           if a < 0x80 then Some 1
           else if a < 0xC2 \<or> 0xF4 < a then None
           else if a < 0xE0 then
             (case cs of b # _ \<Rightarrow> if second_ok a (of_char b) then Some 2 else None | [] \<Rightarrow> None)
           else if a < 0xF0 then
             (case cs of b # d # _ \<Rightarrow> if second_ok a (of_char b) \<and> cont_byte d then Some 3 else None
              | _ \<Rightarrow> None)
           else
             (case cs of
                b # d # e # _ \<Rightarrow>
                  if second_ok a (of_char b) \<and> cont_byte d \<and> cont_byte e then Some 4 else None
              | _ \<Rightarrow> None)))"

lemma utf8_size_bounds: "utf8_size s = Some n \<Longrightarrow> 1 \<le> n \<and> n \<le> length s \<and> n \<le> 4"
  by (auto simp: utf8_size_def Let_def split: list.splits if_splits)

text \<open>The escape of one byte below 0x80.\<close>

definition esc_ascii :: "char \<Rightarrow> string" where
  "esc_ascii c =
     (if c = CHR 0x5C \<or> c = CHR 0x22 then [CHR 0x5C, c]
      else if c = CHR 0x08 then [CHR 0x5C, CHR ''b'']
      else if c = CHR 0x0C then [CHR 0x5C, CHR ''f'']
      else if c = CHR 0x0A then [CHR 0x5C, CHR ''n'']
      else if c = CHR 0x0D then [CHR 0x5C, CHR ''r'']
      else if c = CHR 0x09 then [CHR 0x5C, CHR ''t'']
      else if (of_char c :: nat) < 0x20 \<or> c \<in> {CHR ''<'', CHR ''>'', CHR ''&''} then
        [CHR 0x5C, CHR ''u'', CHR ''0'', CHR ''0'', hex_digit (of_char c div 16), hex_digit (of_char c mod 16)]
      else [c])"

function json_escape :: "string \<Rightarrow> string" where
  "json_escape s =
     (case s of
        [] \<Rightarrow> []
      | c # cs \<Rightarrow>
          if (of_char c :: nat) < 0x80 then esc_ascii c @ json_escape cs
          else
            (case utf8_size s of
               None \<Rightarrow> CHR 0x5C # ''ufffd'' @ json_escape cs
             | Some n \<Rightarrow>
                 (if take n s = [CHR 0xE2, CHR 0x80, CHR 0xA8] then CHR 0x5C # ''u2028''
                  else if take n s = [CHR 0xE2, CHR 0x80, CHR 0xA9] then CHR 0x5C # ''u2029''
                  else take n s) @ json_escape (drop n s)))"
  by pat_completeness auto
termination
  by (relation "measure length") (auto dest: utf8_size_bounds)

declare json_escape.simps [simp del]

definition json_quote :: "string \<Rightarrow> string" where
  "json_quote s = CHR 0x22 # json_escape s @ [CHR 0x22]"

section \<open>Marshal\<close>

fun commas :: "string list \<Rightarrow> string" where
  "commas [] = []"
| "commas [x] = x"
| "commas (x # xs) = x @ '','' @ commas xs"

definition json_members :: "(string \<times> string) list \<Rightarrow> string" where
  "json_members ms = ''{'' @ commas (map (\<lambda>(k, t). json_quote k @ '':'' @ t) ms) @ ''}''"

fun Marshal :: "json \<Rightarrow> string" where
  "Marshal JNull = ''null''"
| "Marshal (JBool b) = FormatBool b"
| "Marshal (JNum n) = n"
| "Marshal (JStr s) = json_quote s"
| "Marshal (JArr xs) = ''['' @ commas (map Marshal xs) @ '']''"
| "Marshal (JObj m) = json_members (sort_key fst (map (\<lambda>(k, v). (k, Marshal v)) m))"

section \<open>Laws of objects\<close>

lemma obj_get_put: "obj_get (obj_put k v m) j = (if j = k then Some v else obj_get m j)"
  by (simp add: update_conv')

lemma obj_get_del: "obj_get (obj_del k m) j = (if j = k then None else obj_get m j)"
  by (simp add: delete_conv')

lemma distinct_put [simp]: "distinct (map fst m) \<Longrightarrow> distinct (map fst (obj_put k v m))"
  by (rule distinct_update)

lemma distinct_del [simp]: "distinct (map fst m) \<Longrightarrow> distinct (map fst (obj_del k m))"
  by (rule distinct_delete)

lemma set_put: "set (obj_put k v m) \<subseteq> insert (k, v) (set m)"
  by (induction m) auto

lemma set_del: "set (obj_del k m) \<subseteq> set m"
  by (auto simp: AList.delete_eq)

lemma wf_obj_put [simp]: "wf_obj m \<Longrightarrow> wf_json v \<Longrightarrow> wf_obj (obj_put k v m)"
  using set_put [of k v m] by (auto simp: distinct_update)

lemma wf_obj_del [simp]: "wf_obj m \<Longrightarrow> wf_obj (obj_del k m)"
  using set_del [of k m] by auto

lemma wf_obj_get: "wf_obj m \<Longrightarrow> obj_get m k = Some v \<Longrightarrow> wf_json v"
  by (auto dest: map_of_SomeD)

lemma obj_map_Some: "obj_map m k = Some o' \<longleftrightarrow> obj_get m k = Some (JObj o')"
  by (auto simp: obj_map_def split: option.splits json.splits)

lemma wf_obj_map: "wf_obj m \<Longrightarrow> obj_map m k = Some o' \<Longrightarrow> wf_obj o'"
  using wf_obj_get unfolding obj_map_Some by blast

lemma obj_map_put: "obj_map (obj_put k v m) j =
    (if j = k then (case v of JObj o' \<Rightarrow> Some o' | _ \<Rightarrow> None) else obj_map m j)"
  by (simp add: obj_map_def obj_get_put)

lemma obj_map_del: "obj_map (obj_del k m) j = (if j = k then None else obj_map m j)"
  by (simp add: obj_map_def obj_get_del)

lemma map_of_strings: "obj_get (of_strings m) k = map_option JStr (map_of m k)"
  unfolding of_strings_def by (induction m) auto

lemma wf_of_strings [simp]: "wf_obj (of_strings m) \<longleftrightarrow> distinct (map fst m)"
proof -
  have "map fst (of_strings m) = map fst m" "\<forall>p \<in> set (of_strings m). wf_json (snd p)"
    by (auto simp: of_strings_def split_def)
  then show ?thesis by simp
qed

section \<open>The text depends on the lookups only\<close>

lemma sort_key_cong_set:
  assumes "distinct (map fst xs)" "distinct (map fst ys)" "set xs = set ys"
  shows "sort_key fst xs = sort_key fst ys"
proof (rule map_sorted_distinct_set_unique [of fst])
  show "inj_on fst (set (sort_key fst xs) \<union> set (sort_key fst ys))"
    using assms by (simp add: distinct_map)
  show "distinct (map fst (sort_key fst xs))" "distinct (map fst (sort_key fst ys))"
    using assms by (simp_all add: distinct_map)
qed (use assms in simp_all)

lemma Marshal_cong:
  assumes "distinct (map fst m)" "distinct (map fst m')" "obj_get m = obj_get m'"
  shows "Marshal (JObj m) = Marshal (JObj m')"
proof -
  let ?f = "map (\<lambda>(k, v). (k, Marshal v))"
  have "set m = set m'"
    using assms map_of_inject_set by blast
  then have "sort_key fst (?f m) = sort_key fst (?f m')"
    using assms by (intro sort_key_cong_set) (simp_all add: comp_def split_def)
  then show ?thesis by simp
qed

end
