(* ===== verification/Json_Parse.thy ===== *)
theory Json_Parse
  imports Json Go_Crypto
begin

text \<open>
  The reader of \<^verbatim>\<open>encoding/json\<close>: strings with their escapes and UTF-8 repair, numbers kept as text, and
  values up to the nesting limit of the Go scanner. A parser returns the value and the unread rest.
  What \<open>Marshal\<close> printed is read back, up to the repair of invalid UTF-8 and the order of keys.
\<close>

section \<open>Strings\<close>

definition replacement :: string where
  "replacement = [CHR 0xEF, CHR 0xBF, CHR 0xBD]"

text \<open>The UTF-8 encoding of a code point.\<close>

definition utf8_encode :: "nat \<Rightarrow> string" where
  "utf8_encode r =
     (if r < 0x80 then [char_of r]
      else if r < 0x800 then [char_of (0xC0 + r div 64), char_of (0x80 + r mod 64)]
      else if r < 0x10000 then
        [char_of (0xE0 + r div 4096), char_of (0x80 + r div 64 mod 64), char_of (0x80 + r mod 64)]
      else
        [char_of (0xF0 + r div 262144), char_of (0x80 + r div 4096 mod 64),
         char_of (0x80 + r div 64 mod 64), char_of (0x80 + r mod 64)])"

fun hex4 :: "string \<Rightarrow> (nat \<times> string) option" where
  "hex4 (a # b # c # d # r) =
     (case (hex_val a, hex_val b, hex_val c, hex_val d) of
        (Some w, Some x, Some y, Some z) \<Rightarrow> Some (w * 4096 + x * 256 + y * 16 + z, r)
      | _ \<Rightarrow> None)"
| "hex4 _ = None"

text \<open>An escape, after its backslash; a lone surrogate becomes the replacement character.\<close>

definition json_esc :: "string \<Rightarrow> (string \<times> string) option" where
  "json_esc s =
     (case s of
        [] \<Rightarrow> None
      | c # r \<Rightarrow>
          if c \<in> {CHR 0x22, CHR 0x5C, CHR ''/''} then Some ([c], r)
          else if c = CHR ''b'' then Some ([CHR 0x08], r)
          else if c = CHR ''f'' then Some ([CHR 0x0C], r)
          else if c = CHR ''n'' then Some ([CHR 0x0A], r)
          else if c = CHR ''r'' then Some ([CHR 0x0D], r)
          else if c = CHR ''t'' then Some ([CHR 0x09], r)
          else if c = CHR ''u'' then
            (case hex4 r of
               None \<Rightarrow> None
             | Some (v, r1) \<Rightarrow>
                 if 0xD800 \<le> v \<and> v < 0xE000 then
                   (case (if take 2 r1 = [CHR 0x5C, CHR ''u''] then hex4 (drop 2 r1) else None) of
                      Some (v2, r2) \<Rightarrow>
                        if v < 0xDC00 \<and> 0xDC00 \<le> v2 \<and> v2 < 0xE000
                        then Some (utf8_encode (0x10000 + (v - 0xD800) * 1024 + (v2 - 0xDC00)), r2)
                        else Some (replacement, r1)
                    | None \<Rightarrow> Some (replacement, r1))
                 else Some (utf8_encode v, r1))
          else None)"

lemma hex4_length: "hex4 s = Some (v, r) \<Longrightarrow> length r < length s"
  by (induction s rule: hex4.induct) (auto split: option.splits)

lemma json_esc_length: "json_esc s = Some (out, r) \<Longrightarrow> length r < length s"
  unfolding json_esc_def
  by (auto dest!: hex4_length split: list.splits if_splits option.splits prod.splits)

text \<open>The rest of a string after its opening quote.\<close>

function json_string :: "string \<Rightarrow> (string \<times> string) option" where
  "json_string s =
     (case s of
        [] \<Rightarrow> None
      | c # cs \<Rightarrow>
          if c = CHR 0x22 then Some ([], cs)
          else if c = CHR 0x5C then
            (case json_esc cs of
               None \<Rightarrow> None
             | Some (out, r) \<Rightarrow> map_option (\<lambda>(t, q). (out @ t, q)) (json_string r))
          else if (of_char c :: nat) < 0x20 then None
          else
            (case utf8_size s of
               None \<Rightarrow> map_option (\<lambda>(t, q). (replacement @ t, q)) (json_string cs)
             | Some n \<Rightarrow> map_option (\<lambda>(t, q). (take n s @ t, q)) (json_string (drop n s))))"
  by pat_completeness auto
termination
  by (relation "measure length") (auto dest: json_esc_length utf8_size_bounds)

declare json_string.simps [simp del]

text \<open>The repair of invalid UTF-8 that printing and reading a string amounts to.\<close>

function to_valid :: "string \<Rightarrow> string" where
  "to_valid s =
     (case s of
        [] \<Rightarrow> []
      | c # cs \<Rightarrow>
          (case utf8_size s of
             None \<Rightarrow> replacement @ to_valid cs
           | Some n \<Rightarrow> take n s @ to_valid (drop n s)))"
  by pat_completeness auto
termination
  by (relation "measure length") (auto dest: utf8_size_bounds)

declare to_valid.simps [simp del]

lemma utf8_size_prefix:
  assumes "utf8_size s = Some n"
  shows "utf8_size (take n s @ u) = Some n"
proof -
  obtain c cs where s: "s = c # cs" using assms by (cases s) (simp_all add: utf8_size_def)
  let ?a = "of_char c :: nat"
  consider "?a < 0x80" | "0xC2 \<le> ?a" "?a < 0xE0" | "0xE0 \<le> ?a" "?a < 0xF0" | "0xF0 \<le> ?a" "?a \<le> 0xF4"
    using assms s by (force simp: utf8_size_def Let_def split: if_splits)
  then show ?thesis
    using assms s
    by cases (auto simp: utf8_size_def Let_def eval_nat_numeral(2,3)
        split: list.splits if_splits)
qed

lemma utf8_size_ascii: "(of_char c :: nat) < 0x80 \<Longrightarrow> utf8_size (c # cs) = Some 1"
  by (simp add: utf8_size_def)

lemma utf8_encode_ascii: "(of_char c :: nat) < 0x80 \<Longrightarrow> utf8_encode (of_char c) = [c]"
  by (simp add: utf8_encode_def)

abbreviation prepend :: "string \<Rightarrow> (string \<times> string) option \<Rightarrow> (string \<times> string) option" where
  "prepend out \<equiv> map_option (\<lambda>(t, q). (out @ t, q))"

lemma json_string_escape: "json_esc cs = Some (out, r) \<Longrightarrow> json_string (CHR 0x5C # cs) = prepend out (json_string r)"
  by (subst json_string.simps) simp

lemma json_string_plain:
  "c \<noteq> CHR 0x22 \<Longrightarrow> c \<noteq> CHR 0x5C \<Longrightarrow> 0x20 \<le> (of_char c :: nat) \<Longrightarrow> (of_char c :: nat) < 0x80 \<Longrightarrow>
   json_string (c # cs) = prepend [c] (json_string cs)"
  by (subst json_string.simps) (simp add: utf8_size_ascii)

lemma json_esc_u00:
  assumes "(of_char c :: nat) < 0x80"
  shows "json_esc (CHR ''u'' # CHR ''0'' # CHR ''0'' # hex_digit (of_char c div 16) # hex_digit (of_char c mod 16) # u) =
    Some ([c], u)"
proof -
  have "hex_val (CHR ''0'') = Some 0" by (simp add: hex_val_def)
  moreover have "hex_val (hex_digit (of_char c div 16)) = Some (of_char c div 16)"
    "hex_val (hex_digit (of_char c mod 16)) = Some (of_char c mod 16)"
    using assms by simp_all
  ultimately have "hex4 (CHR ''0'' # CHR ''0'' # hex_digit (of_char c div 16) # hex_digit (of_char c mod 16) # u) =
      Some (of_char c, u)"
    by simp
  with assms show ?thesis
    by (simp add: json_esc_def utf8_encode_ascii)
qed

lemma json_string_esc_ascii:
  assumes "(of_char c :: nat) < 0x80"
  shows "json_string (esc_ascii c @ u) = prepend [c] (json_string u)"
proof -
  let ?simple = "[CHR 0x5C, CHR 0x22, CHR 0x08, CHR 0x0C, CHR 0x0A, CHR 0x0D, CHR 0x09]"
  consider "c \<in> set ?simple" | "c \<notin> set ?simple" "(of_char c :: nat) < 0x20 \<or> c \<in> {CHR ''<'', CHR ''>'', CHR ''&''}"
    | "c \<notin> set ?simple" "0x20 \<le> (of_char c :: nat)" "c \<notin> {CHR ''<'', CHR ''>'', CHR ''&''}"
    by linarith
  then show ?thesis
  proof cases
    case 1
    then show ?thesis
      by (auto simp: esc_ascii_def json_string_escape json_esc_def)
  next
    case 2
    then have "esc_ascii c @ u = CHR 0x5C # CHR ''u'' # CHR ''0'' # CHR ''0'' #
        hex_digit (of_char c div 16) # hex_digit (of_char c mod 16) # u"
      by (auto simp: esc_ascii_def)
    then show ?thesis
      using json_string_escape [OF json_esc_u00 [OF assms]] by simp
  next
    case 3
    then have "esc_ascii c = [c]" by (auto simp: esc_ascii_def)
    with 3 assms show ?thesis by (simp add: json_string_plain)
  qed
qed

lemma char_literals:
  "char_of (239 :: nat) = CHR 0xEF" "char_of (191 :: nat) = CHR 0xBF" "char_of (189 :: nat) = CHR 0xBD"
  "char_of (226 :: nat) = CHR 0xE2" "char_of (128 :: nat) = CHR 0x80" "char_of (168 :: nat) = CHR 0xA8"
  "char_of (169 :: nat) = CHR 0xA9"
  by code_simp+

lemma json_esc_literals:
  "json_esc (''ufffd'' @ u) = Some (replacement, u)"
  "json_esc (''u2028'' @ u) = Some ([CHR 0xE2, CHR 0x80, CHR 0xA8], u)"
  "json_esc (''u2029'' @ u) = Some ([CHR 0xE2, CHR 0x80, CHR 0xA9], u)"
  by (simp_all add: json_esc_def hex_val_def utf8_encode_def replacement_def char_literals)

lemma json_string_utf8:
  assumes "utf8_size s = Some n" "s = c # cs" "0x80 \<le> (of_char c :: nat)"
  shows "json_string (take n s @ u) = prepend (take n s) (json_string u)"
proof -
  have n: "1 \<le> n" "n \<le> length s" using utf8_size_bounds [OF assms(1)] by simp_all
  have "c \<noteq> CHR 0x22" "c \<noteq> CHR 0x5C" using assms(3) by auto
  moreover have "take n s @ u = c # (take (n - 1) cs @ u)"
    using assms(2) n(1) by (cases n) simp_all
  ultimately have "json_string (take n s @ u) =
      prepend (take n (take n s @ u)) (json_string (drop n (take n s @ u)))"
    using utf8_size_prefix [OF assms(1), of u] assms(3)
    by (subst json_string.simps) simp
  with n show ?thesis by simp
qed

text \<open>Reading a printed string gives the string, repaired where it was not valid UTF-8.\<close>

lemma json_string_json_escape: "json_string (json_escape s @ CHR 0x22 # u) = Some (to_valid s, u)"
proof (induction s rule: json_escape.induct)
  case (1 s)
  show ?case
  proof (cases s)
    case Nil
    then show ?thesis
      by (simp add: json_escape.simps [of "[]"] to_valid.simps [of "[]"] json_string.simps)
  next
    case (Cons c cs)
    show ?thesis
    proof (cases "(of_char c :: nat) < 0x80")
      case True
      then have "json_escape s = esc_ascii c @ json_escape cs" "to_valid s = [c] @ to_valid cs"
        using Cons by (simp_all add: json_escape.simps [of "c # cs"] to_valid.simps [of "c # cs"] utf8_size_ascii)
      then show ?thesis
        using "1.IH"(1) [OF Cons True] json_string_esc_ascii [OF True] by simp
    next
      case False
      show ?thesis
      proof (cases "utf8_size s")
        case None
        then have "json_escape s = CHR 0x5C # ''ufffd'' @ json_escape cs" "to_valid s = replacement @ to_valid cs"
          using Cons False by (simp_all add: json_escape.simps [of "c # cs"] to_valid.simps [of "c # cs"])
        then show ?thesis
          using "1.IH"(2) [OF Cons False None] json_string_escape [OF json_esc_literals(1)] by simp
      next
        case (Some n)
        let ?t = "if take n s = [CHR 0xE2, CHR 0x80, CHR 0xA8] then CHR 0x5C # ''u2028''
          else if take n s = [CHR 0xE2, CHR 0x80, CHR 0xA9] then CHR 0x5C # ''u2029'' else take n s"
        have eq: "json_escape s = ?t @ json_escape (drop n s)" "to_valid s = take n s @ to_valid (drop n s)"
          using Cons False Some by (simp_all add: json_escape.simps [of "c # cs"] to_valid.simps [of "c # cs"])
        have "json_string (?t @ v) = prepend (take n s) (json_string v)" for v
          using json_string_escape [OF json_esc_literals(2)] json_string_escape [OF json_esc_literals(3)]
            json_string_utf8 [OF Some Cons] False by simp
        then show ?thesis
          using "1.IH"(3) [OF Cons False Some] eq by simp
      qed
    qed
  qed
qed

text \<open>Repair leaves valid text alone, and what it returns is valid.\<close>

function utf8_valid :: "string \<Rightarrow> bool" where
  "utf8_valid s \<longleftrightarrow> (case s of [] \<Rightarrow> True | _ # _ \<Rightarrow>
     (case utf8_size s of None \<Rightarrow> False | Some n \<Rightarrow> utf8_valid (drop n s)))"
  by pat_completeness auto
termination
  by (relation "measure length") (auto dest: utf8_size_bounds)

declare utf8_valid.simps [simp del]

lemma to_valid_id: "utf8_valid s \<Longrightarrow> to_valid s = s"
proof (induction s rule: utf8_valid.induct)
  case (1 s)
  then show ?case
    by (simp add: to_valid.simps [of s] utf8_valid.simps [of s] split: list.splits option.splits)
qed

lemma utf8_valid_ascii: "\<forall>c \<in> set s. (of_char c :: nat) < 0x80 \<Longrightarrow> utf8_valid s"
  by (induction s) (subst utf8_valid.simps, simp add: utf8_size_ascii)+

section \<open>Numbers\<close>

definition json_digits :: "string \<Rightarrow> (string \<times> string) option" where
  "json_digits s =
     (let ds = takeWhile is_digit s in if ds = [] then None else Some (ds, dropWhile is_digit s))"

definition json_sign :: "string \<Rightarrow> string list \<Rightarrow> string \<times> string" where
  "json_sign s signs = (if s \<noteq> [] \<and> [hd s] \<in> set signs then ([hd s], tl s) else ([], s))"

definition json_fraction :: "string \<Rightarrow> (string \<times> string) option" where
  "json_fraction s =
     (if s \<noteq> [] \<and> hd s = CHR ''.''
      then map_option (\<lambda>(ds, r). (CHR ''.'' # ds, r)) (json_digits (tl s)) else Some ([], s))"

definition json_exponent :: "string \<Rightarrow> (string \<times> string) option" where
  "json_exponent s =
     (if s \<noteq> [] \<and> hd s \<in> {CHR ''e'', CHR ''E''}
      then (case json_sign (tl s) [''+'', ''-''] of (sg, r) \<Rightarrow>
        map_option (\<lambda>(ds, q). (hd s # sg @ ds, q)) (json_digits r))
      else Some ([], s))"

definition json_number :: "string \<Rightarrow> (string \<times> string) option" where
  "json_number s =
     (case json_sign s [''-''] of (sg, s1) \<Rightarrow>
      case json_digits s1 of
        None \<Rightarrow> None
      | Some (ds, s2) \<Rightarrow>
          if hd ds = CHR ''0'' \<and> 1 < length ds then None
          else case json_fraction s2 of
            None \<Rightarrow> None
          | Some (fr, s3) \<Rightarrow> map_option (\<lambda>(ex, r). (sg @ ds @ fr @ ex, r)) (json_exponent s3))"

section \<open>Values\<close>

definition is_ws :: "char \<Rightarrow> bool" where
  "is_ws c \<longleftrightarrow> c \<in> {CHR '' '', CHR 0x09, CHR 0x0A, CHR 0x0D}"

abbreviation skip_ws :: "string \<Rightarrow> string" where
  "skip_ws \<equiv> dropWhile is_ws"

definition after_lit :: "string \<Rightarrow> 'a \<Rightarrow> string \<Rightarrow> ('a \<times> string) option" where
  "after_lit lit v s = (if take (length lit) s = lit then Some (v, drop (length lit) s) else None)"

text \<open>
  The elements of an array and the members of an object, after the opening bracket, with the reader of a
  value as an argument; \<open>n\<close> bounds their number.
\<close>

type_synonym reader = "string \<Rightarrow> (json \<times> string) option"

primrec json_elems :: "nat \<Rightarrow> reader \<Rightarrow> string \<Rightarrow> (json list \<times> string) option" where
  "json_elems 0 val s = None"
| "json_elems (Suc n) val s =
     (case val s of
        None \<Rightarrow> None
      | Some (v, r0) \<Rightarrow>
          (let r = skip_ws r0 in
           if r = [] then None
           else if hd r = CHR '','' then map_option (\<lambda>(vs, q). (v # vs, q)) (json_elems n val (tl r))
           else if hd r = CHR '']'' then Some ([v], tl r)
           else None))"

primrec json_fields :: "nat \<Rightarrow> reader \<Rightarrow> string \<Rightarrow> ((string \<times> json) list \<times> string) option" where
  "json_fields 0 val s0 = None"
| "json_fields (Suc n) val s0 =
     (let s = skip_ws s0 in
      if s = [] \<or> hd s \<noteq> CHR 0x22 then None
      else case json_string (tl s) of
        None \<Rightarrow> None
      | Some (k, r1) \<Rightarrow>
          (let r2 = skip_ws r1 in
           if r2 = [] \<or> hd r2 \<noteq> CHR '':'' then None
           else case val (tl r2) of
             None \<Rightarrow> None
           | Some (v, r3) \<Rightarrow>
               (let r = skip_ws r3 in
                if r = [] then None
                else if hd r = CHR '','' then map_option (\<lambda>(m, q). ((k, v) # m, q)) (json_fields n val (tl r))
                else if hd r = CHR ''}'' then Some ([(k, v)], tl r)
                else None)))"

text \<open>
  A value: \<open>n\<close> bounds the depth of the recursion, \<open>d\<close> is the nesting of arrays and objects that is left
  (the scanner of Go allows 10000).
\<close>

primrec json_value :: "nat \<Rightarrow> nat \<Rightarrow> reader" where
  "json_value 0 d s0 = None"
| "json_value (Suc n) d s0 =
     (let s = skip_ws s0 in
      if s = [] then None
      else if hd s = CHR 0x22 then map_option (\<lambda>(t, r). (JStr t, r)) (json_string (tl s))
      else if hd s = CHR ''{'' then
        (let r = skip_ws (tl s) in
         if d = 0 then None
         else if r \<noteq> [] \<and> hd r = CHR ''}'' then Some (JObj [], tl r)
         else map_option (\<lambda>(m, q). (JObj m, q)) (json_fields (length r) (json_value n (d - 1)) r))
      else if hd s = CHR ''['' then
        (let r = skip_ws (tl s) in
         if d = 0 then None
         else if r \<noteq> [] \<and> hd r = CHR '']'' then Some (JArr [], tl r)
         else map_option (\<lambda>(xs, q). (JArr xs, q)) (json_elems (length r) (json_value n (d - 1)) r))
      else if hd s = CHR ''t'' then after_lit ''true'' (JBool True) s
      else if hd s = CHR ''f'' then after_lit ''false'' (JBool False) s
      else if hd s = CHR ''n'' then after_lit ''null'' JNull s
      else map_option (\<lambda>(t, r). (JNum t, r)) (json_number s))"

definition Unmarshal :: "string \<Rightarrow> json option" where
  "Unmarshal s =
     (case json_value (Suc (length s)) 10000 s of
        Some (v, r) \<Rightarrow> if skip_ws r = [] then Some v else None
      | None \<Rightarrow> None)"

section \<open>Printed text is read back\<close>

text \<open>What may follow a value: the end, or a character that closes or separates.\<close>

definition stops :: "string \<Rightarrow> bool" where
  "stops r \<longleftrightarrow> r = [] \<or> hd r \<in> {CHR '','', CHR '']'', CHR ''}'', newline}"

text \<open>
  \<open>prints d t v\<close>: the text \<open>t\<close> is read as the value \<open>v\<close>, wherever it stands, with \<open>d\<close> levels of nesting and
  fuel for its length.
\<close>

definition prints :: "nat \<Rightarrow> string \<Rightarrow> json \<Rightarrow> bool" where
  "prints d t v \<longleftrightarrow>
     t \<noteq> [] \<and> \<not> is_ws (hd t) \<and> hd t \<notin> {CHR '']'', CHR ''}''} \<and>
     (\<forall>n d' r. length t \<le> n \<longrightarrow> d \<le> d' \<longrightarrow> stops r \<longrightarrow> json_value n d' (t @ r) = Some (v, r))"

lemma prints_Unmarshal: "prints d t v \<Longrightarrow> d \<le> 10000 \<Longrightarrow> Unmarshal t = Some v"
proof -
  assume "prints d t v" "d \<le> 10000"
  then have "json_value (Suc (length t)) 10000 (t @ []) = Some (v, [])"
    unfolding prints_def stops_def by (metis le_SucI order_refl)
  then show ?thesis by (simp add: Unmarshal_def del: json_value.simps)
qed

lemma prints_Unmarshal_line: "prints d t v \<Longrightarrow> d \<le> 10000 \<Longrightarrow> Unmarshal (t @ [newline]) = Some v"
proof -
  assume "prints d t v" "d \<le> 10000"
  moreover have "stops [newline]" by (simp add: stops_def)
  ultimately have "json_value (Suc (length (t @ [newline]))) 10000 (t @ [newline]) = Some (v, [newline])"
    unfolding prints_def by (metis le_SucI le_add1 length_append)
  then show ?thesis by (simp add: Unmarshal_def is_ws_def del: json_value.simps)
qed

lemma prints_mono: "prints d t v \<Longrightarrow> d \<le> d' \<Longrightarrow> prints d' t v"
  by (simp add: prints_def)

lemma prints_value:
  "prints d t v \<Longrightarrow> length t \<le> n \<Longrightarrow> d \<le> d' \<Longrightarrow> stops r \<Longrightarrow> json_value n d' (t @ r) = Some (v, r)"
  by (simp add: prints_def)

lemma printsI:
  assumes "t \<noteq> []" "\<not> is_ws (hd t)" "hd t \<notin> {CHR '']'', CHR ''}''}"
    and "\<And>n d' r. length t \<le> Suc n \<Longrightarrow> d \<le> d' \<Longrightarrow> stops r \<Longrightarrow> json_value (Suc n) d' (t @ r) = Some (v, r)"
  shows "prints d t v"
  unfolding prints_def
proof (intro conjI allI impI)
  fix n d' r
  assume "length t \<le> n" "d \<le> d'" "stops r"
  moreover from this assms(1) obtain n' where "n = Suc n'" by (cases n) simp_all
  ultimately show "json_value n d' (t @ r) = Some (v, r)" using assms(4) by blast
qed (use assms in blast)+

lemma not_ws [simp]:
  "\<not> is_ws (CHR 0x22)" "\<not> is_ws (CHR ''{'')" "\<not> is_ws (CHR ''['')" "\<not> is_ws (CHR '','')" "\<not> is_ws (CHR '':'')"
  "\<not> is_ws (CHR ''}'')" "\<not> is_ws (CHR '']'')" "\<not> is_ws (CHR ''t'')" "\<not> is_ws (CHR ''f'')" "\<not> is_ws (CHR ''n'')"
  by (simp_all add: is_ws_def)

lemma prints_null: "prints 0 ''null'' JNull"
  by (rule printsI) (simp_all add: after_lit_def)

lemma prints_bool: "prints 0 (FormatBool b) (JBool b)"
  by (cases b; rule printsI) (simp_all add: after_lit_def FormatBool_def)

lemma prints_string: "prints 0 (json_quote s) (JStr (to_valid s))"
  by (rule printsI) (simp_all add: json_quote_def json_string_json_escape)

text \<open>The text of a number.\<close>

definition num_text :: "string \<Rightarrow> bool" where
  "num_text t \<longleftrightarrow> json_number t = Some (t, [])"

definition no_digit :: "string \<Rightarrow> bool" where
  "no_digit r \<longleftrightarrow> r = [] \<or> \<not> is_digit (hd r)"

lemma stops_no_digit [simp]: "stops r \<Longrightarrow> no_digit r"
  by (auto simp: stops_def no_digit_def is_digit_def)

lemma json_digits_append: "json_digits s = Some (ds, q) \<Longrightarrow> no_digit r \<Longrightarrow> json_digits (s @ r) = Some (ds, q @ r)"
proof -
  assume a: "json_digits s = Some (ds, q)" "no_digit r"
  have "takeWhile is_digit (s @ r) = takeWhile is_digit s" "dropWhile is_digit (s @ r) = dropWhile is_digit s @ r"
    using a(2) by (induction s) (cases r; simp add: no_digit_def)+
  then show ?thesis using a(1) by (simp add: json_digits_def Let_def split: if_splits)
qed

lemma json_fraction_append: "json_fraction s = Some (t, q) \<Longrightarrow> stops r \<Longrightarrow> json_fraction (s @ r) = Some (t, q @ r)"
  by (cases s) (auto simp: json_fraction_def stops_def json_digits_append split: if_splits)

lemma json_exponent_append: "json_exponent s = Some (t, q) \<Longrightarrow> stops r \<Longrightarrow> json_exponent (s @ r) = Some (t, q @ r)"
proof (cases s)
  case (Cons c cs)
  assume a: "json_exponent s = Some (t, q)" "stops r"
  show ?thesis
  proof (cases "c \<in> {CHR ''e'', CHR ''E''}")
    case True
    obtain sg u where u: "json_sign cs [''+'', ''-''] = (sg, u)" by fastforce
    then obtain ds where "json_digits u = Some (ds, q)" "t = c # sg @ ds"
      using a Cons True by (auto simp: json_exponent_def)
    moreover from this u have "json_sign (cs @ r) [''+'', ''-''] = (sg, u @ r)"
      by (cases cs) (auto simp: json_sign_def json_digits_def Let_def split: if_splits)
    ultimately show ?thesis using Cons True a(2) by (simp add: json_exponent_def json_digits_append)
  qed (use a Cons in \<open>auto simp: json_exponent_def\<close>)
qed (auto simp: json_exponent_def stops_def)

lemma json_number_append:
  assumes "json_number s = Some (t, q)" "stops r"
  shows "json_number (s @ r) = Some (t, q @ r)"
proof -
  obtain sg u where u: "json_sign s [''-''] = (sg, u)" by fastforce
  then obtain ds s2 fr s3 ex where parts: "json_digits u = Some (ds, s2)" "\<not> (hd ds = CHR ''0'' \<and> 1 < length ds)"
    "json_fraction s2 = Some (fr, s3)" "json_exponent s3 = Some (ex, q)" "t = sg @ ds @ fr @ ex"
    using assms(1) by (auto simp: json_number_def split: option.splits if_splits)
  moreover have "json_sign (s @ r) [''-''] = (sg, u @ r)"
    using u parts(1) by (cases s) (auto simp: json_sign_def json_digits_def Let_def split: if_splits)
  ultimately show ?thesis
    using assms(2) by (simp add: json_number_def json_digits_append json_fraction_append json_exponent_append)
qed

lemma num_text_hd: "num_text t \<Longrightarrow> t \<noteq> [] \<and> (hd t = CHR ''-'' \<or> is_digit (hd t))"
  by (cases t) (auto simp: num_text_def json_number_def json_sign_def json_digits_def Let_def split: if_splits)

lemma prints_num: "num_text t \<Longrightarrow> prints 0 t (JNum t)"
proof (rule printsI)
  assume t: "num_text t"
  have hd: "hd t = CHR ''-'' \<or> is_digit (hd t)" "t \<noteq> []" using num_text_hd [OF t] by auto
  then show "t \<noteq> []" "hd t \<notin> {CHR '']'', CHR ''}''}" "\<not> is_ws (hd t)"
    by (auto simp: is_ws_def is_digit_def)
  fix n d' r
  assume "stops r"
  have no: "hd t \<noteq> CHR 0x22" "hd t \<noteq> CHR ''{''" "hd t \<noteq> CHR ''[''" "hd t \<noteq> CHR ''t''" "hd t \<noteq> CHR ''f''"
    "hd t \<noteq> CHR ''n''" "\<not> is_ws (hd t)"
    using hd by (auto simp: is_ws_def is_digit_def)
  then have ws: "skip_ws (t @ r) = t @ r" using hd(2) by (cases t) simp_all
  show "json_value (Suc n) d' (t @ r) = Some (JNum t, r)"
    using t no hd(2) json_number_append [OF _ \<open>stops r\<close>, of t t "[]"]
    by (simp add: ws num_text_def)
qed

lemma dec_nat_hd0: "hd (dec_nat n) = CHR ''0'' \<Longrightarrow> length (dec_nat n) \<le> 1"
proof (induction n rule: dec_nat.induct)
  case (1 n)
  show ?case
  proof (cases "n < 10")
    case False
    then have rec: "dec_nat n = dec_nat (n div 10) @ [digit (n mod 10)]" "dec_nat (n div 10) \<noteq> []"
      by (subst dec_nat.simps, simp) simp
    then have z: "hd (dec_nat (n div 10)) = CHR ''0''" using 1(2) by simp
    then have "length (dec_nat (n div 10)) \<le> 1" using 1(1) False by blast
    then obtain c where c: "dec_nat (n div 10) = [c]"
      using rec(2) by (cases "dec_nat (n div 10)") simp_all
    then have "n div 10 = 0" using z dec_val_dec_nat [of "n div 10"] by (simp add: dec_val_def digit_val_def)
    then show ?thesis using False by simp
  qed (subst dec_nat.simps, simp)
qed

lemma num_text_FormatInt [simp]: "num_text (FormatInt i)"
proof -
  have ds: "json_digits (dec_nat n) = Some (dec_nat n, [])" for n
  proof -
    have "takeWhile is_digit (dec_nat n) = dec_nat n" "dropWhile is_digit (dec_nat n) = []"
      using dec_nat_digits by (simp_all add: takeWhile_eq_all_conv dropWhile_eq_Nil_conv)
    then show ?thesis by (simp add: json_digits_def Let_def del: takeWhile_eq_all_conv dropWhile_eq_Nil_conv)
  qed
  have sg: "json_sign (dec_nat n) [''-''] = ([], dec_nat n)" for n
    by (cases "dec_nat n") (auto simp: json_sign_def dest: dec_nat_Cons_not_sign)
  have lead: "\<not> (hd (dec_nat n) = CHR ''0'' \<and> 1 < length (dec_nat n))" for n
    using dec_nat_hd0 [of n] by auto
  have tail: "json_fraction [] = Some ([], [])" "json_exponent [] = Some ([], [])"
    by (simp_all add: json_fraction_def json_exponent_def)
  have "json_sign (CHR ''-'' # dec_nat n) [''-''] = (''-'', dec_nat n)" for n by (simp add: json_sign_def)
  then show ?thesis
    unfolding num_text_def json_number_def FormatInt_def
    by (cases "i < 0") (simp_all only: if_True if_False ds sg lead tail prod.case option.case option.map append.simps append_Nil2)
qed

lemma stops_simps [simp]:
  "stops []" "stops (CHR '','' # r)" "stops (CHR '']'' # r)" "stops (CHR ''}'' # r)" "stops (newline # r)"
  by (simp_all add: stops_def)

lemma json_elems_commas:
  assumes "list_all2 (prints d) ts vs" "ts \<noteq> []" "\<forall>t \<in> set ts. length t \<le> n" "d \<le> d'" "length ts \<le> m"
  shows "json_elems m (json_value n d') (commas ts @ CHR '']'' # r) = Some (vs, r)"
  using assms
proof (induction ts arbitrary: vs m rule: commas.induct)
  case (2 t)
  then obtain v m' where "vs = [v]" "m = Suc m'" "prints d t v" by (cases m) (auto simp: list_all2_Cons1)
  then show ?case using 2 by (simp add: prints_value)
next
  case (3 t t' ts)
  then obtain v vs' m' where "vs = v # vs'" "m = Suc m'" "prints d t v" "list_all2 (prints d) (t' # ts) vs'"
    by (cases m) (auto simp: list_all2_Cons1)
  then show ?case using 3 by (simp add: prints_value)
qed simp

lemma commas_length: "\<forall>t \<in> set ts. t \<noteq> [] \<Longrightarrow> length ts \<le> length (commas ts)"
  by (induction ts rule: commas.induct) (auto simp: Suc_le_eq)

lemma commas_member_length: "t \<in> set ts \<Longrightarrow> length t \<le> length (commas ts)"
  by (induction ts rule: commas.induct) auto

lemma commas_hd: "ts \<noteq> [] \<Longrightarrow> hd ts \<noteq> [] \<Longrightarrow> commas ts \<noteq> [] \<and> hd (commas ts) = hd (hd ts)"
  by (induction ts rule: commas.induct) auto

lemma skip_ws_id: "s \<noteq> [] \<Longrightarrow> \<not> is_ws (hd s) \<Longrightarrow> skip_ws s = s"
  by (cases s) simp_all

lemma prints_array:
  assumes "list_all2 (prints d) ts vs"
  shows "prints (Suc d) (''['' @ commas ts @ '']'') (JArr vs)"
proof (rule printsI)
  fix n d' r
  assume n: "length (''['' @ commas ts @ '']'') \<le> Suc n" and d: "Suc d \<le> d'"
  show "json_value (Suc n) d' ((''['' @ commas ts @ '']'') @ r) = Some (JArr vs, r)"
  proof (cases ts)
    case Nil
    then show ?thesis using assms d by simp
  next
    case (Cons t ts')
    have ne: "\<forall>t \<in> set ts. t \<noteq> [] \<and> \<not> is_ws (hd t) \<and> hd t \<noteq> CHR '']''"
      using assms by (auto simp: list_all2_conv_all_nth prints_def in_set_conv_nth)
    let ?s = "commas ts @ CHR '']'' # r"
    have hd: "commas ts \<noteq> []" "hd (commas ts) = hd t"
      using ne Cons commas_hd [of ts] by auto
    then have s: "skip_ws ?s = ?s" "?s \<noteq> []" "hd ?s \<noteq> CHR '']''"
      using ne Cons by (simp_all add: skip_ws_id)
    have "\<forall>t \<in> set ts. length t \<le> n" using n commas_member_length [of _ ts] by fastforce
    then have "json_elems (length ?s) (json_value n (d' - 1)) ?s = Some (vs, r)"
      using d Cons commas_length [of ts] ne by (intro json_elems_commas [OF assms]) auto
    then show ?thesis using s d by simp
  qed
qed simp_all

text \<open>The members of an object, in the order they were printed.\<close>

definition prints_member :: "nat \<Rightarrow> string \<times> string \<Rightarrow> string \<times> json \<Rightarrow> bool" where
  "prints_member d p q \<longleftrightarrow> fst q = to_valid (fst p) \<and> prints d (snd p) (snd q)"

abbreviation member_text :: "string \<times> string \<Rightarrow> string" where
  "member_text \<equiv> \<lambda>(k, t). json_quote k @ '':'' @ t"

lemma json_fields_commas:
  assumes "list_all2 (prints_member d) ms m" "ms \<noteq> []" "\<forall>p \<in> set ms. length (snd p) \<le> n" "d \<le> d'"
    "length ms \<le> f"
  shows "json_fields f (json_value n d') (commas (map member_text ms) @ CHR ''}'' # r) = Some (m, r)"
  using assms
proof (induction ms arbitrary: m f)
  case (Cons p ms)
  obtain k t q m' f' where eq: "p = (k, t)" "m = q # m'" "f = Suc f'" "prints_member d (k, t) q"
      "list_all2 (prints_member d) ms m'"
    using Cons.prems by (cases p; cases f) (auto simp: list_all2_Cons1)
  then have q: "q = (to_valid k, snd q)" "prints d t (snd q)" by (auto simp: prints_member_def prod_eq_iff)
  have ws: "skip_ws (t @ u) = t @ u" for u
    using q(2) by (cases t) (auto simp: prints_def)
  show ?case
  proof (cases ms)
    case Nil
    then show ?thesis
      using eq q Cons.prems by (simp add: json_quote_def json_string_json_escape prints_value)
  next
    case (Cons p' ms')
    let ?rest = "commas (map member_text ms) @ CHR ''}'' # r"
    have "json_fields f' (json_value n d') ?rest = Some (m', r)"
      using Cons.IH eq Cons.prems Cons by simp
    moreover have "commas (map member_text (p # ms)) @ CHR ''}'' # r =
        CHR 0x22 # json_escape k @ CHR 0x22 # CHR '':'' # t @ CHR '','' # ?rest"
      using Cons eq by (simp add: json_quote_def)
    ultimately show ?thesis
      using eq q Cons.prems by (simp add: json_string_json_escape prints_value)
  qed
qed simp

lemma prints_members:
  assumes "list_all2 (prints_member d) ms m"
  shows "prints (Suc d) (json_members ms) (JObj m)"
  unfolding json_members_def
proof (rule printsI)
  let ?ts = "map member_text ms"
  fix n d' r
  assume n: "length (''{'' @ commas ?ts @ ''}'') \<le> Suc n" and d: "Suc d \<le> d'"
  show "json_value (Suc n) d' ((''{'' @ commas ?ts @ ''}'') @ r) = Some (JObj m, r)"
  proof (cases ms)
    case Nil
    then show ?thesis using assms d by simp
  next
    case (Cons p ms')
    have ne: "\<forall>t \<in> set ?ts. t \<noteq> []" "hd (hd ?ts) = CHR 0x22"
      using Cons by (auto simp: json_quote_def split: prod.splits)
    let ?s = "commas ?ts @ CHR ''}'' # r"
    have "?ts \<noteq> []" "hd ?ts \<noteq> []" using ne(1) Cons by simp_all
    then have hd: "commas ?ts \<noteq> []" "hd (commas ?ts) = CHR 0x22"
      using commas_hd [of ?ts] ne(2) by simp_all
    then have s: "skip_ws ?s = ?s" "?s \<noteq> []" "hd ?s \<noteq> CHR ''}''"
      by (simp_all add: skip_ws_id)
    have "length (snd p) \<le> n" if "p \<in> set ms" for p
    proof -
      have "length (member_text p) \<le> length (commas ?ts)" using that by (intro commas_member_length) simp
      then show ?thesis using n by (cases p) simp
    qed
    then have "json_fields (length ?s) (json_value n (d' - 1)) ?s = Some (m, r)"
      using d Cons commas_length [of ?ts] ne by (intro json_fields_commas [OF assms]) auto
    then show ?thesis using s d by simp
  qed
qed simp_all

section \<open>The round trip of Marshal\<close>

text \<open>What a value is after printing and reading: keys sorted, strings repaired.\<close>

fun canon :: "json \<Rightarrow> json" where
  "canon (JStr s) = JStr (to_valid s)"
| "canon (JArr xs) = JArr (map canon xs)"
| "canon (JObj m) = JObj (map (\<lambda>(k, v). (to_valid k, v)) (sort_key fst (map (\<lambda>(k, v). (k, canon v)) m)))"
| "canon v = v"

fun json_depth :: "json \<Rightarrow> nat" where
  "json_depth (JArr xs) = Suc (Max (set (0 # map json_depth xs)))"
| "json_depth (JObj m) = Suc (Max (set (0 # map (\<lambda>(k, v). json_depth v) m)))"
| "json_depth v = 0"

fun nums_ok :: "json \<Rightarrow> bool" where
  "nums_ok (JNum t) \<longleftrightarrow> num_text t"
| "nums_ok (JArr xs) \<longleftrightarrow> (\<forall>x \<in> set xs. nums_ok x)"
| "nums_ok (JObj m) \<longleftrightarrow> (\<forall>p \<in> set m. nums_ok (snd p))"
| "nums_ok v \<longleftrightarrow> True"

text \<open>The text of a value that \<^verbatim>\<open>json.Marshal\<close> can print: its numbers are numbers.\<close>

lemma sort_key_map_snd:
  "sort_key fst (map (\<lambda>(k, v). (k, f v)) m) = map (\<lambda>(k, v). (k, f v)) (sort_key fst m)"
proof -
  have "insort_key fst (k, f v) (map (\<lambda>(k, v). (k, f v)) m) = map (\<lambda>(k, v). (k, f v)) (insort_key fst (k, v) m)"
    for k :: 'a and v m
    by (induction m) auto
  then show ?thesis by (induction m) auto
qed

lemma prints_Marshal: "nums_ok v \<Longrightarrow> prints (json_depth v) (Marshal v) (canon v)"
proof (induction v)
  case (JArr xs)
  let ?d = "Max (set (0 # map json_depth xs))"
  have "prints ?d (Marshal x) (canon x)" if "x \<in> set xs" for x
  proof -
    have "prints (json_depth x) (Marshal x) (canon x)" using JArr that by simp
    moreover have "json_depth x \<le> ?d" using that by (intro Max_ge) auto
    ultimately show ?thesis by (rule prints_mono)
  qed
  then have "list_all2 (prints ?d) (map Marshal xs) (map canon xs)"
    by (simp add: list.rel_map list_all2_same)
  then show ?case using prints_array by simp
next
  case (JObj m)
  let ?d = "Max (set (0 # map (\<lambda>(k, v). json_depth v) m))"
  have "prints ?d (Marshal x) (canon x)" if "(k, x) \<in> set m" for k x
  proof -
    have "prints (json_depth x) (Marshal x) (canon x)" using JObj that by fastforce
    moreover have "json_depth x \<le> ?d" using that by (intro Max_ge) force+
    ultimately show ?thesis by (rule prints_mono)
  qed
  then have "list_all2 (prints_member ?d) (map (\<lambda>(k, v). (k, Marshal v)) (sort_key fst m))
      (map (\<lambda>(k, v). (to_valid k, v)) (map (\<lambda>(k, v). (k, canon v)) (sort_key fst m)))"
    by (auto simp add: list.rel_map list_all2_same prints_member_def)
  then show ?case using prints_members by (simp add: sort_key_map_snd)
qed (simp_all add: prints_null prints_bool prints_num prints_string)

lemma Unmarshal_Marshal: "nums_ok v \<Longrightarrow> json_depth v \<le> 10000 \<Longrightarrow> Unmarshal (Marshal v) = Some (canon v)"
  by (rule prints_Unmarshal [OF prints_Marshal])

text \<open>Two values with one text have one content.\<close>

lemma Marshal_inj_canon:
  assumes "Marshal v = Marshal w" "nums_ok v" "nums_ok w"
  shows "canon v = canon w"
proof -
  let ?d = "max (json_depth v) (json_depth w)"
  have "prints ?d (Marshal v) (canon v)" "prints ?d (Marshal v) (canon w)"
    using assms prints_Marshal prints_mono by (metis max.cobounded1 max.cobounded2)+
  then have "json_value (length (Marshal v)) ?d (Marshal v @ []) = Some (canon v, [])"
    "json_value (length (Marshal v)) ?d (Marshal v @ []) = Some (canon w, [])"
    using prints_value by (meson order_refl stops_simps(1))+
  then show ?thesis by simp
qed

section \<open>Structs\<close>

text \<open>
  A Go struct prints its fields in the order of their declaration, so its tree is printed as it stands;
  reading it back repairs its strings and keeps the order.
\<close>

fun json_text :: "json \<Rightarrow> string" where
  "json_text (JArr xs) = ''['' @ commas (map json_text xs) @ '']''"
| "json_text (JObj m) = json_members (map (\<lambda>(k, v). (k, json_text v)) m)"
| "json_text v = Marshal v"

fun repair :: "json \<Rightarrow> json" where
  "repair (JStr s) = JStr (to_valid s)"
| "repair (JArr xs) = JArr (map repair xs)"
| "repair (JObj m) = JObj (map (\<lambda>(k, v). (to_valid k, repair v)) m)"
| "repair v = v"

lemma prints_json_text: "nums_ok v \<Longrightarrow> prints (json_depth v) (json_text v) (repair v)"
proof (induction v)
  case (JArr xs)
  let ?d = "Max (set (0 # map json_depth xs))"
  have "prints ?d (json_text x) (repair x)" if "x \<in> set xs" for x
  proof -
    have "prints (json_depth x) (json_text x) (repair x)" using JArr that by simp
    moreover have "json_depth x \<le> ?d" using that by (intro Max_ge) auto
    ultimately show ?thesis by (rule prints_mono)
  qed
  then have "list_all2 (prints ?d) (map json_text xs) (map repair xs)"
    by (simp add: list.rel_map list_all2_same)
  then show ?case using prints_array by simp
next
  case (JObj m)
  let ?d = "Max (set (0 # map (\<lambda>(k, v). json_depth v) m))"
  have "prints ?d (json_text x) (repair x)" if "(k, x) \<in> set m" for k x
  proof -
    have "prints (json_depth x) (json_text x) (repair x)" using JObj that by fastforce
    moreover have "json_depth x \<le> ?d" using that by (intro Max_ge) force+
    ultimately show ?thesis by (rule prints_mono)
  qed
  then have "list_all2 (prints_member ?d) (map (\<lambda>(k, v). (k, json_text v)) m)
      (map (\<lambda>(k, v). (to_valid k, repair v)) m)"
    by (auto simp add: list.rel_map list_all2_same prints_member_def)
  then show ?case using prints_members by simp
qed (simp_all add: prints_null prints_bool prints_num prints_string)

lemma Unmarshal_json_line:
  "nums_ok v \<Longrightarrow> json_depth v \<le> 10000 \<Longrightarrow> Unmarshal (json_text v @ [newline]) = Some (repair v)"
  by (rule prints_Unmarshal_line [OF prints_json_text])

lemma Unmarshal_json_text:
  "nums_ok v \<Longrightarrow> json_depth v \<le> 10000 \<Longrightarrow> Unmarshal (json_text v) = Some (repair v)"
  by (rule prints_Unmarshal [OF prints_json_text])

end
