(* ===== verification/Wire.thy ===== *)
theory Wire
  imports Protocol Json_Parse
begin

text \<open>
  The JSON forms of the wire types of \<^verbatim>\<open>internal/protocol\<close> (the tags of types.go and ws.go): what
  \<^verbatim>\<open>json.Marshal\<close> makes of a struct and what \<^verbatim>\<open>json.Unmarshal\<close> makes of a body. A decoder updates a
  value that is there already, as Go does: a member that is \<^verbatim>\<open>null\<close> leaves a string, a number, a boolean
  or a struct alone and clears a slice or a pointer, an unknown member is skipped, a name is matched
  exactly and then without regard to case, and a member of the wrong type makes the whole call fail.
  (A slice that occurs twice in one body reuses the elements of the first occurrence; what Go keeps in
  the spare capacity behind a shorter second occurrence is not followed.)
\<close>

section \<open>Frames (ws.go)\<close>

abbreviation WsTypeAgentHello :: string where "WsTypeAgentHello \<equiv> ''agent_hello''"
abbreviation WsTypeHelloAck :: string where "WsTypeHelloAck \<equiv> ''hello_ack''"
abbreviation WsTypeCommand :: string where "WsTypeCommand \<equiv> ''command''"
abbreviation WsTypeReport :: string where "WsTypeReport \<equiv> ''report''"
abbreviation WsTypeError :: string where "WsTypeError \<equiv> ''error''"

record ws_hello =
  wh_Type :: string
  wh_Token :: string
  wh_ClusterID :: string
  wh_Version :: string

record ws_hello_ack =
  wa_Type :: string
  wa_Accepted :: bool
  wa_Message :: string

record ws_envelope =
  we_Type :: string

record ws_command_message =
  wc_Type :: string
  wc_Command :: "command option"

record ws_report_message =
  wr_Type :: string
  wr_Report :: "report option"

record ws_error_message =
  wm_Type :: string
  wm_Message :: string

text \<open>Request bodies as the server reads them: a slice of pointers may hold \<^verbatim>\<open>null\<close>.\<close>

record batch_body =
  bb_ClusterID :: string
  bb_Seq :: int64
  bb_Full :: bool
  bb_Events :: "inventory_event option list"

record poll_body =
  pb_ClusterID :: string
  pb_Version :: string
  pb_Reports :: "report option list"

section \<open>Decoding\<close>

type_synonym 'a decoder = "'a \<Rightarrow> json \<Rightarrow> 'a option"

fun dec_string :: "string decoder" where
  "dec_string _ (JStr s) = Some s"
| "dec_string cur JNull = Some cur"
| "dec_string _ _ = None"

fun dec_bool :: "bool decoder" where
  "dec_bool _ (JBool b) = Some b"
| "dec_bool cur JNull = Some cur"
| "dec_bool _ _ = None"

fun dec_int64 :: "int64 decoder" where
  "dec_int64 _ (JNum t) = ParseInt t"
| "dec_int64 cur JNull = Some cur"
| "dec_int64 _ _ = None"

definition int32_ok :: "int \<Rightarrow> bool" where
  "int32_ok x \<longleftrightarrow> - (2 ^ 31) \<le> x \<and> x < 2 ^ 31"

definition dec_int32 :: "int decoder" where
  "dec_int32 cur v = (case dec_int64 cur v of Some i \<Rightarrow> if int32_ok i then Some i else None | None \<Rightarrow> None)"

primrec dec_elems :: "'a decoder \<Rightarrow> 'a \<Rightarrow> 'a list \<Rightarrow> json list \<Rightarrow> 'a list option" where
  "dec_elems dec zero cur [] = Some []"
| "dec_elems dec zero cur (v # vs) =
     (case dec (case cur of [] \<Rightarrow> zero | x # _ \<Rightarrow> x) v of
        None \<Rightarrow> None
      | Some a \<Rightarrow> map_option ((#) a) (dec_elems dec zero (tl cur) vs))"

fun dec_slice :: "'a decoder \<Rightarrow> 'a \<Rightarrow> 'a list decoder" where
  "dec_slice dec zero cur (JArr vs) = dec_elems dec zero cur vs"
| "dec_slice dec zero cur JNull = Some []"
| "dec_slice dec zero cur _ = None"

definition dec_ptr :: "'a decoder \<Rightarrow> 'a \<Rightarrow> 'a option decoder" where
  "dec_ptr dec zero cur v =
     (if v = JNull then Some None
      else map_option Some (dec (case cur of Some a \<Rightarrow> a | None \<Rightarrow> zero) v))"

text \<open>Bytes are a base64 string, or an array of numbers below 256.\<close>

fun dec_byte :: "char decoder" where
  "dec_byte _ (JNum t) =
     (if list_all is_digit t \<and> dec_val t < 256 then Some (char_of (dec_val t)) else None)"
| "dec_byte cur JNull = Some cur"
| "dec_byte _ _ = None"

fun dec_bytes :: "bytes decoder" where
  "dec_bytes _ (JStr s) = base64_DecodeString s"
| "dec_bytes cur v = dec_slice dec_byte (CHR 0x00) cur v"

text \<open>
  The case folding of field names: ASCII letters to upper case, and the two other characters that fold to
  an ASCII letter, the Kelvin sign and the long s.
\<close>

definition upper_ascii :: "char \<Rightarrow> char" where
  "upper_ascii c = (if 97 \<le> (of_char c :: nat) \<and> (of_char c :: nat) \<le> 122 then char_of ((of_char c :: nat) - 32) else c)"

function fold_name :: "string \<Rightarrow> string" where
  "fold_name s =
     (if s = [] then []
      else if take 3 s = [CHR 0xE2, CHR 0x84, CHR 0xAA] then CHR ''K'' # fold_name (drop 3 s)
      else if take 2 s = [CHR 0xC5, CHR 0xBF] then CHR ''S'' # fold_name (drop 2 s)
      else upper_ascii (hd s) # fold_name (tl s))"
  by pat_completeness auto
termination
  by (relation "measure length") auto

declare fold_name.simps [simp del]

type_synonym 'r fields = "(string \<times> 'r decoder) list"

definition field_of :: "'r fields \<Rightarrow> string \<Rightarrow> 'r decoder option" where
  "field_of fs k =
     (case map_of fs k of
        Some f \<Rightarrow> Some f
      | None \<Rightarrow> map_of (map (\<lambda>(n, f). (fold_name n, f)) fs) (fold_name k))"

primrec dec_members :: "'r fields \<Rightarrow> 'r \<Rightarrow> jobj \<Rightarrow> 'r option" where
  "dec_members fs r [] = Some r"
| "dec_members fs r (p # m) =
     (case field_of fs (fst p) of
        None \<Rightarrow> dec_members fs r m
      | Some f \<Rightarrow> (case f r (snd p) of None \<Rightarrow> None | Some r' \<Rightarrow> dec_members fs r' m))"

fun dec_struct :: "'r fields \<Rightarrow> 'r decoder" where
  "dec_struct fs r (JObj m) = dec_members fs r m"
| "dec_struct fs r JNull = Some r"
| "dec_struct fs r _ = None"

text \<open>A field of a struct: its decoder, its selector and its update.\<close>

definition fld :: "'a decoder \<Rightarrow> ('r \<Rightarrow> 'a) \<Rightarrow> (('a \<Rightarrow> 'a) \<Rightarrow> 'r \<Rightarrow> 'r) \<Rightarrow> 'r decoder" where
  "fld dec get upd r v = map_option (\<lambda>a. upd (\<lambda>_. a) r) (dec (get r) v)"

text \<open>
  \<^verbatim>\<open>json.Unmarshal\<close> into a variable with its zero value, and \<^verbatim>\<open>Decoder.Decode\<close>, which reads the first value of
  a stream.
\<close>

definition Unmarshal_into :: "'a decoder \<Rightarrow> 'a \<Rightarrow> bytes \<Rightarrow> 'a option" where
  "Unmarshal_into dec zero s = (case Unmarshal s of None \<Rightarrow> None | Some v \<Rightarrow> dec zero v)"

definition Decode_into :: "'a decoder \<Rightarrow> 'a \<Rightarrow> bytes \<Rightarrow> 'a option" where
  "Decode_into dec zero s =
     (case json_value (Suc (length s)) 10000 s of None \<Rightarrow> None | Some (v, _) \<Rightarrow> dec zero v)"

section \<open>The tags of types.go\<close>

definition opt_str :: "string \<Rightarrow> string \<Rightarrow> jobj" where
  "opt_str k s = (if s = '''' then [] else [(k, JStr s)])"

definition jint :: "int \<Rightarrow> json" where
  "jint i = JNum (FormatInt i)"

definition opt_bytes :: "string \<Rightarrow> bytes \<Rightarrow> jobj" where
  "opt_bytes k b = opt_str k (base64_EncodeToString b)"

definition opt_bool :: "string \<Rightarrow> bool \<Rightarrow> jobj" where
  "opt_bool k b = (if b then [(k, JBool b)] else [])"

definition opt_int :: "string \<Rightarrow> int \<Rightarrow> jobj" where
  "opt_int k i = (if i = 0 then [] else [(k, jint i)])"

definition opt_slice :: "string \<Rightarrow> json list \<Rightarrow> jobj" where
  "opt_slice k xs = (if xs = [] then [] else [(k, JArr xs)])"

definition enc_ptr :: "('a \<Rightarrow> json) \<Rightarrow> 'a option \<Rightarrow> json" where
  "enc_ptr enc p = (case p of None \<Rightarrow> JNull | Some a \<Rightarrow> enc a)"

definition ResourceRef_json :: "resource_ref \<Rightarrow> json" where
  "ResourceRef_json r =
     JObj ([(''group'', JStr (rr_Group r)), (''version'', JStr (rr_Version r)),
       (''resource'', JStr (rr_Resource r))] @ opt_str ''namespace'' (rr_Namespace r) @
       [(''name'', JStr (rr_Name r))])"

definition ResourceRef_fields :: "resource_ref fields" where
  "ResourceRef_fields =
     [(''group'', fld dec_string rr_Group rr_Group_update),
      (''version'', fld dec_string rr_Version rr_Version_update),
      (''resource'', fld dec_string rr_Resource rr_Resource_update),
      (''namespace'', fld dec_string rr_Namespace rr_Namespace_update),
      (''name'', fld dec_string rr_Name rr_Name_update)]"

definition zero_ref :: resource_ref where
  "zero_ref = \<lparr>rr_Group = '''', rr_Version = '''', rr_Resource = '''', rr_Namespace = '''', rr_Name = ''''\<rparr>"

definition InventoryEvent_json :: "inventory_event \<Rightarrow> json" where
  "InventoryEvent_json e =
     JObj ([(''op'', JStr (ev_Op e)), (''ref'', ResourceRef_json (ev_Ref e))] @
       opt_bytes ''objectJson'' (ev_ObjectJSON e) @ [(''timestamp'', jint (ev_Timestamp e))])"

definition InventoryEvent_fields :: "inventory_event fields" where
  "InventoryEvent_fields =
     [(''op'', fld dec_string ev_Op ev_Op_update),
      (''ref'', fld (dec_struct ResourceRef_fields) ev_Ref ev_Ref_update),
      (''objectJson'', fld dec_bytes ev_ObjectJSON ev_ObjectJSON_update),
      (''timestamp'', fld dec_int64 ev_Timestamp ev_Timestamp_update)]"

definition zero_event :: inventory_event where
  "zero_event = \<lparr>ev_Op = '''', ev_Ref = zero_ref, ev_ObjectJSON = '''', ev_Timestamp = 0\<rparr>"

text \<open>A batch without events has a nil slice, which prints as \<^verbatim>\<open>null\<close>.\<close>

definition InventoryBatch_json :: "inventory_batch \<Rightarrow> json" where
  "InventoryBatch_json b =
     JObj (opt_str ''clusterId'' (ib_ClusterID b) @ [(''seq'', jint (ib_Seq b))] @ opt_bool ''full'' (ib_Full b) @
       [(''events'', if ib_Events b = [] then JNull else JArr (map InventoryEvent_json (ib_Events b)))])"

definition InventoryBatch_fields :: "batch_body fields" where
  "InventoryBatch_fields =
     [(''clusterId'', fld dec_string bb_ClusterID bb_ClusterID_update),
      (''seq'', fld dec_int64 bb_Seq bb_Seq_update),
      (''full'', fld dec_bool bb_Full bb_Full_update),
      (''events'', fld (dec_slice (dec_ptr (dec_struct InventoryEvent_fields) zero_event) None)
         bb_Events bb_Events_update)]"

definition zero_batch :: batch_body where
  "zero_batch = \<lparr>bb_ClusterID = '''', bb_Seq = 0, bb_Full = False, bb_Events = []\<rparr>"

definition InventoryAck_json :: "inventory_ack \<Rightarrow> json" where
  "InventoryAck_json a =
     JObj ([(''ok'', JBool (ack_OK a)), (''lastSeq'', jint (ack_LastSeq a))] @ opt_str ''error'' (ack_Error a))"

definition InventoryAck_fields :: "inventory_ack fields" where
  "InventoryAck_fields =
     [(''ok'', fld dec_bool ack_OK ack_OK_update),
      (''lastSeq'', fld dec_int64 ack_LastSeq ack_LastSeq_update),
      (''error'', fld dec_string ack_Error ack_Error_update)]"

definition zero_ack :: inventory_ack where
  "zero_ack = \<lparr>ack_OK = False, ack_LastSeq = 0, ack_Error = ''''\<rparr>"

definition HelmSpec_json :: "helm_spec \<Rightarrow> json" where
  "HelmSpec_json h =
     JObj ([(''releaseName'', JStr (h_ReleaseName h)), (''namespace'', JStr (h_Namespace h)),
       (''chartRef'', JStr (h_ChartRef h))] @ opt_str ''version'' (h_Version h) @
       opt_bytes ''valuesYaml'' (h_ValuesYAML h))"

definition HelmSpec_fields :: "helm_spec fields" where
  "HelmSpec_fields =
     [(''releaseName'', fld dec_string h_ReleaseName h_ReleaseName_update),
      (''namespace'', fld dec_string h_Namespace h_Namespace_update),
      (''chartRef'', fld dec_string h_ChartRef h_ChartRef_update),
      (''version'', fld dec_string h_Version h_Version_update),
      (''valuesYaml'', fld dec_bytes h_ValuesYAML h_ValuesYAML_update)]"

definition zero_helm :: helm_spec where
  "zero_helm = \<lparr>h_ReleaseName = '''', h_Namespace = '''', h_ChartRef = '''', h_Version = '''', h_ValuesYAML = ''''\<rparr>"

definition Command_json :: "command \<Rightarrow> json" where
  "Command_json c =
     JObj ([(''id'', JStr (c_ID c)), (''nonce'', JStr (c_Nonce c)), (''timestamp'', jint (c_Timestamp c)),
       (''verb'', JStr (c_Verb c)), (''target'', ResourceRef_json (c_Target c))] @
       opt_bytes ''payload'' (c_Payload c) @ opt_str ''patchType'' (c_PatchType c) @
       (case c_Helm c of None \<Rightarrow> [] | Some h \<Rightarrow> [(''helm'', HelmSpec_json h)]) @
       opt_str ''expectedHash'' (c_ExpectedHash c) @ opt_bool ''override'' (c_Override c) @
       [(''signature'', JStr (c_Signature c))])"

definition Command_fields :: "command fields" where
  "Command_fields =
     [(''id'', fld dec_string c_ID c_ID_update),
      (''nonce'', fld dec_string c_Nonce c_Nonce_update),
      (''timestamp'', fld dec_int64 c_Timestamp c_Timestamp_update),
      (''verb'', fld dec_string c_Verb c_Verb_update),
      (''target'', fld (dec_struct ResourceRef_fields) c_Target c_Target_update),
      (''payload'', fld dec_bytes c_Payload c_Payload_update),
      (''patchType'', fld dec_string c_PatchType c_PatchType_update),
      (''helm'', fld (dec_ptr (dec_struct HelmSpec_fields) zero_helm) c_Helm c_Helm_update),
      (''expectedHash'', fld dec_string c_ExpectedHash c_ExpectedHash_update),
      (''override'', fld dec_bool c_Override c_Override_update),
      (''signature'', fld dec_string c_Signature c_Signature_update)]"

definition zero_command :: command where
  "zero_command =
     \<lparr>c_ID = '''', c_Nonce = '''', c_Timestamp = 0, c_Verb = '''', c_Target = zero_ref, c_Payload = '''',
      c_PatchType = '''', c_Helm = None, c_ExpectedHash = '''', c_Override = False, c_Signature = ''''\<rparr>"

definition Report_json :: "report \<Rightarrow> json" where
  "Report_json r =
     JObj (opt_str ''clusterId'' (r_ClusterID r) @
       [(''commandId'', JStr (r_CommandID r)), (''status'', JStr (r_Status r))] @
       opt_str ''message'' (r_Message r) @ opt_str ''diff'' (r_Diff r) @ opt_int ''progress'' (r_Progress r) @
       [(''timestamp'', jint (r_Timestamp r))])"

definition Report_fields :: "report fields" where
  "Report_fields =
     [(''clusterId'', fld dec_string r_ClusterID r_ClusterID_update),
      (''commandId'', fld dec_string r_CommandID r_CommandID_update),
      (''status'', fld dec_string r_Status r_Status_update),
      (''message'', fld dec_string r_Message r_Message_update),
      (''diff'', fld dec_string r_Diff r_Diff_update),
      (''progress'', fld dec_int32 r_Progress r_Progress_update),
      (''timestamp'', fld dec_int64 r_Timestamp r_Timestamp_update)]"

definition zero_report :: report where
  "zero_report =
     \<lparr>r_ClusterID = '''', r_CommandID = '''', r_Status = '''', r_Message = '''', r_Diff = '''', r_Progress = 0,
      r_Timestamp = 0\<rparr>"

definition PollRequest_json :: "poll_request \<Rightarrow> json" where
  "PollRequest_json q =
     JObj (opt_str ''clusterId'' (pq_ClusterID q) @ opt_str ''version'' (pq_Version q) @
       opt_slice ''reports'' (map Report_json (pq_Reports q)))"

definition PollRequest_fields :: "poll_body fields" where
  "PollRequest_fields =
     [(''clusterId'', fld dec_string pb_ClusterID pb_ClusterID_update),
      (''version'', fld dec_string pb_Version pb_Version_update),
      (''reports'', fld (dec_slice (dec_ptr (dec_struct Report_fields) zero_report) None)
         pb_Reports pb_Reports_update)]"

definition zero_poll :: poll_body where
  "zero_poll = \<lparr>pb_ClusterID = '''', pb_Version = '''', pb_Reports = []\<rparr>"

definition PollResponse_json :: "poll_response \<Rightarrow> json" where
  "PollResponse_json p =
     JObj ((''ok'', JBool (pr_OK p)) # opt_slice ''commands'' (map (enc_ptr Command_json) (pr_Commands p)))"

definition PollResponse_fields :: "poll_response fields" where
  "PollResponse_fields =
     [(''ok'', fld dec_bool pr_OK pr_OK_update),
      (''commands'', fld (dec_slice (dec_ptr (dec_struct Command_fields) zero_command) None)
         pr_Commands pr_Commands_update)]"

definition zero_response :: poll_response where
  "zero_response = \<lparr>pr_OK = False, pr_Commands = []\<rparr>"

section \<open>The tags of ws.go\<close>

definition WsHello_json :: "ws_hello \<Rightarrow> json" where
  "WsHello_json h =
     JObj ([(''type'', JStr (wh_Type h)), (''token'', JStr (wh_Token h))] @
       opt_str ''clusterId'' (wh_ClusterID h) @ opt_str ''version'' (wh_Version h))"

definition WsHello_fields :: "ws_hello fields" where
  "WsHello_fields =
     [(''type'', fld dec_string wh_Type wh_Type_update),
      (''token'', fld dec_string wh_Token wh_Token_update),
      (''clusterId'', fld dec_string wh_ClusterID wh_ClusterID_update),
      (''version'', fld dec_string wh_Version wh_Version_update)]"

definition zero_hello :: ws_hello where
  "zero_hello = \<lparr>wh_Type = '''', wh_Token = '''', wh_ClusterID = '''', wh_Version = ''''\<rparr>"

definition WsHelloAck_json :: "ws_hello_ack \<Rightarrow> json" where
  "WsHelloAck_json a =
     JObj ([(''type'', JStr (wa_Type a)), (''accepted'', JBool (wa_Accepted a))] @ opt_str ''message'' (wa_Message a))"

definition WsHelloAck_fields :: "ws_hello_ack fields" where
  "WsHelloAck_fields =
     [(''type'', fld dec_string wa_Type wa_Type_update),
      (''accepted'', fld dec_bool wa_Accepted wa_Accepted_update),
      (''message'', fld dec_string wa_Message wa_Message_update)]"

definition zero_hello_ack :: ws_hello_ack where
  "zero_hello_ack = \<lparr>wa_Type = '''', wa_Accepted = False, wa_Message = ''''\<rparr>"

definition WsEnvelope_fields :: "ws_envelope fields" where
  "WsEnvelope_fields = [(''type'', fld dec_string we_Type we_Type_update)]"

definition WsCommandMessage_json :: "ws_command_message \<Rightarrow> json" where
  "WsCommandMessage_json m =
     JObj [(''type'', JStr (wc_Type m)), (''command'', enc_ptr Command_json (wc_Command m))]"

definition WsCommandMessage_fields :: "ws_command_message fields" where
  "WsCommandMessage_fields =
     [(''type'', fld dec_string wc_Type wc_Type_update),
      (''command'', fld (dec_ptr (dec_struct Command_fields) zero_command) wc_Command wc_Command_update)]"

definition zero_command_message :: ws_command_message where
  "zero_command_message = \<lparr>wc_Type = '''', wc_Command = None\<rparr>"

definition WsReportMessage_json :: "ws_report_message \<Rightarrow> json" where
  "WsReportMessage_json m =
     JObj [(''type'', JStr (wr_Type m)), (''report'', enc_ptr Report_json (wr_Report m))]"

definition WsReportMessage_fields :: "ws_report_message fields" where
  "WsReportMessage_fields =
     [(''type'', fld dec_string wr_Type wr_Type_update),
      (''report'', fld (dec_ptr (dec_struct Report_fields) zero_report) wr_Report wr_Report_update)]"

definition zero_report_message :: ws_report_message where
  "zero_report_message = \<lparr>wr_Type = '''', wr_Report = None\<rparr>"

definition WsErrorMessage_fields :: "ws_error_message fields" where
  "WsErrorMessage_fields =
     [(''type'', fld dec_string wm_Type wm_Type_update),
      (''message'', fld dec_string wm_Message wm_Message_update)]"

section \<open>What is sent is what is read\<close>

named_theorems wire_defs \<open>the trees and the field tables of the wire types\<close>

declare opt_str_def [wire_defs] jint_def [wire_defs] opt_bytes_def [wire_defs] opt_bool_def [wire_defs]
  opt_int_def [wire_defs] b64.decode_encode [wire_defs] fld_def [wire_defs] field_of_def [wire_defs]

lemma to_valid_ascii [simp]: "list_all (\<lambda>c. (of_char c :: nat) < 128) s \<Longrightarrow> to_valid s = s"
  by (simp add: to_valid_id utf8_valid_ascii list_all_iff)

declare to_valid_id [simp]

lemma b64_char_ascii: "n < 64 \<Longrightarrow> (of_char (b64_char n) :: nat) < 128"
  by (auto simp: b64_char_def Let_def)

lemma b64_encode_ascii: "\<forall>x \<in> set xs. x < 256 \<Longrightarrow> c \<in> set (b64_encode xs) \<Longrightarrow> (of_char c :: nat) < 128"
  by (induction xs rule: b64_encode.induct) (auto intro!: b64_char_ascii)

lemma base64_ascii [simp]: "to_valid (base64_EncodeToString b) = base64_EncodeToString b"
  by (rule to_valid_ascii) (auto simp: list_all_iff base64_EncodeToString_def intro!: b64_encode_ascii [of "map of_char b"])

lemma base64_empty [simp]: "base64_EncodeToString b = [] \<longleftrightarrow> b = []"
  by (cases "map of_char b :: nat list" rule: b64_encode.cases) (auto simp: base64_EncodeToString_def)

text \<open>
  The contract of a wire type: a value that is fit for the wire is read back from its tree, its tree can
  be printed, and it is an object of bounded depth.
\<close>

locale wire_type =
  fixes enc :: "'r \<Rightarrow> json" and dec :: "'r decoder" and zero :: 'r and ok :: "'r \<Rightarrow> bool"
  assumes read_back: "ok r \<Longrightarrow> dec zero (repair (enc r)) = Some r"
    and printable: "ok r \<Longrightarrow> nums_ok (enc r)"
    and shallow: "json_depth (enc r) \<le> 9"
    and not_null: "enc r \<noteq> JNull"
begin

lemma roundtrip: "ok r \<Longrightarrow> Unmarshal_into dec zero (json_text (enc r)) = Some r"
  using shallow [of r] by (simp add: Unmarshal_into_def Unmarshal_json_text printable read_back)

lemma roundtrip_line: "ok r \<Longrightarrow> Unmarshal_into dec zero (json_text (enc r) @ [newline]) = Some r"
  using shallow [of r] by (simp add: Unmarshal_into_def Unmarshal_json_line printable read_back)

lemma roundtrip_stream: "ok r \<Longrightarrow> Decode_into dec zero (json_text (enc r)) = Some r"
proof -
  assume r: "ok r"
  have "json_value (Suc (length (json_text (enc r)))) 10000 (json_text (enc r) @ []) = Some (repair (enc r), [])"
    using shallow [of r] by (intro prints_value [OF prints_json_text [OF printable [OF r]]]) auto
  then show ?thesis using r by (simp add: Decode_into_def read_back del: json_value.simps)
qed

lemma repair_not_null: "repair (enc r) \<noteq> JNull"
  using not_null [of r] by (cases "enc r") auto

lemma ptr_back: "ok r \<Longrightarrow> dec_ptr dec zero None (repair (enc r)) = Some (Some r)"
  by (simp add: dec_ptr_def repair_not_null read_back)

lemma opt_ptr_back: "pred_option ok p \<Longrightarrow> dec_ptr dec zero None (repair (enc_ptr enc p)) = Some p"
  by (cases p) (simp add: enc_ptr_def dec_ptr_def, simp add: enc_ptr_def ptr_back)

lemma slice_back:
  "list_all (pred_option ok) ps \<Longrightarrow>
   dec_elems (dec_ptr dec zero) None [] (map (repair \<circ> enc_ptr enc) ps) = Some ps"
  by (induction ps) (simp_all add: opt_ptr_back)

lemma slice_back_all:
  "list_all ok rs \<Longrightarrow> dec_elems (dec_ptr dec zero) None [] (map (repair \<circ> enc) rs) = Some (map Some rs)"
  by (induction rs) (simp_all add: ptr_back)

lemma printable_ptr: "pred_option ok p \<Longrightarrow> nums_ok (enc_ptr enc p)"
  by (cases p) (simp_all add: enc_ptr_def printable)

lemma shallow_ptr: "json_depth (enc_ptr enc p) \<le> 9"
  using shallow by (cases p) (simp_all add: enc_ptr_def)

end

text \<open>Fit for the wire: texts are UTF-8 and integers in range.\<close>

definition ref_ok :: "resource_ref \<Rightarrow> bool" where
  "ref_ok r \<longleftrightarrow> utf8_valid (rr_Group r) \<and> utf8_valid (rr_Version r) \<and> utf8_valid (rr_Resource r) \<and>
     utf8_valid (rr_Namespace r) \<and> utf8_valid (rr_Name r)"

definition event_ok :: "inventory_event \<Rightarrow> bool" where
  "event_ok e \<longleftrightarrow> utf8_valid (ev_Op e) \<and> ref_ok (ev_Ref e) \<and> int64_ok (ev_Timestamp e)"

definition helm_ok :: "helm_spec \<Rightarrow> bool" where
  "helm_ok h \<longleftrightarrow> utf8_valid (h_ReleaseName h) \<and> utf8_valid (h_Namespace h) \<and> utf8_valid (h_ChartRef h) \<and>
     utf8_valid (h_Version h)"

definition command_ok :: "command \<Rightarrow> bool" where
  "command_ok c \<longleftrightarrow> utf8_valid (c_ID c) \<and> utf8_valid (c_Nonce c) \<and> int64_ok (c_Timestamp c) \<and>
     utf8_valid (c_Verb c) \<and> ref_ok (c_Target c) \<and> utf8_valid (c_PatchType c) \<and> pred_option helm_ok (c_Helm c) \<and>
     utf8_valid (c_ExpectedHash c) \<and> utf8_valid (c_Signature c)"

definition report_ok :: "report \<Rightarrow> bool" where
  "report_ok r \<longleftrightarrow> utf8_valid (r_ClusterID r) \<and> utf8_valid (r_CommandID r) \<and> utf8_valid (r_Status r) \<and>
     utf8_valid (r_Message r) \<and> utf8_valid (r_Diff r) \<and> int32_ok (r_Progress r) \<and> int64_ok (r_Timestamp r)"

definition ack_ok :: "inventory_ack \<Rightarrow> bool" where
  "ack_ok a \<longleftrightarrow> int64_ok (ack_LastSeq a) \<and> utf8_valid (ack_Error a)"

lemma int32_int64 [simp]: "int32_ok i \<Longrightarrow> int64_ok i"
  by (simp add: int32_ok_def int64_ok_def)

interpretation ref_wire: wire_type ResourceRef_json "dec_struct ResourceRef_fields" zero_ref ref_ok
proof
  fix r :: resource_ref
  show "ref_ok r \<Longrightarrow> dec_struct ResourceRef_fields zero_ref (repair (ResourceRef_json r)) = Some r"
    by (cases r; cases "rr_Namespace r = ''''")
       (simp_all add: ref_ok_def ResourceRef_json_def ResourceRef_fields_def zero_ref_def wire_defs)
qed (simp_all add: ResourceRef_json_def wire_defs)

interpretation helm_wire: wire_type HelmSpec_json "dec_struct HelmSpec_fields" zero_helm helm_ok
proof
  fix h :: helm_spec
  show "helm_ok h \<Longrightarrow> dec_struct HelmSpec_fields zero_helm (repair (HelmSpec_json h)) = Some h"
    by (cases h; cases "h_Version h = ''''"; cases "h_ValuesYAML h = ''''")
       (simp_all add: helm_ok_def HelmSpec_json_def HelmSpec_fields_def zero_helm_def wire_defs)
qed (simp_all add: HelmSpec_json_def wire_defs)

interpretation ack_wire: wire_type InventoryAck_json "dec_struct InventoryAck_fields" zero_ack ack_ok
proof
  fix a :: inventory_ack
  show "ack_ok a \<Longrightarrow> dec_struct InventoryAck_fields zero_ack (repair (InventoryAck_json a)) = Some a"
    by (cases a; cases "ack_Error a = ''''")
       (simp_all add: ack_ok_def InventoryAck_json_def InventoryAck_fields_def zero_ack_def wire_defs)
qed (simp_all add: InventoryAck_json_def wire_defs)

lemma depth_ref [simp]: "json_depth (ResourceRef_json r) = 1"
  by (simp add: ResourceRef_json_def wire_defs)

lemma depth_helm [simp]: "json_depth (HelmSpec_json h) = 1"
  by (simp add: HelmSpec_json_def wire_defs)

interpretation event_wire: wire_type InventoryEvent_json "dec_struct InventoryEvent_fields" zero_event event_ok
proof
  fix e :: inventory_event
  show "event_ok e \<Longrightarrow> dec_struct InventoryEvent_fields zero_event (repair (InventoryEvent_json e)) = Some e"
    by (cases e; cases "ev_ObjectJSON e = ''''")
       (simp_all add: event_ok_def InventoryEvent_json_def InventoryEvent_fields_def zero_event_def
         ref_wire.read_back wire_defs)
qed (simp_all add: InventoryEvent_json_def event_ok_def ref_wire.printable wire_defs)

interpretation report_wire: wire_type Report_json "dec_struct Report_fields" zero_report report_ok
proof
  fix r :: report
  show "report_ok r \<Longrightarrow> dec_struct Report_fields zero_report (repair (Report_json r)) = Some r"
    by (cases r)
       (simp add: report_ok_def Report_json_def Report_fields_def zero_report_def dec_int32_def wire_defs)
qed (simp_all add: Report_json_def report_ok_def wire_defs)

lemma depth_command: "json_depth (Command_json c) = 2"
  by (cases "c_Helm c"; cases "c_Override c") (simp_all add: Command_json_def wire_defs)

interpretation command_wire: wire_type Command_json "dec_struct Command_fields" zero_command command_ok
proof
  fix c :: command
  assume ok: "command_ok c"
  have helm: "dec_ptr (dec_struct HelmSpec_fields) zero_helm None (repair (HelmSpec_json h)) = Some (Some h)"
    if "c_Helm c = Some h" for h
    using ok that by (intro helm_wire.ptr_back) (simp add: command_ok_def)
  show "dec_struct Command_fields zero_command (repair (Command_json c)) = Some c"
    using ok helm
    by (cases c; cases "c_Helm c")
       (simp_all add: command_ok_def Command_json_def Command_fields_def zero_command_def
         ref_wire.read_back wire_defs)
next
  fix c :: command
  show "command_ok c \<Longrightarrow> nums_ok (Command_json c)"
    by (cases "c_Helm c")
       (simp_all add: command_ok_def Command_json_def ref_wire.printable helm_wire.printable wire_defs)
qed (simp_all add: depth_command, simp add: Command_json_def)

lemma depth_arr: "\<forall>x \<in> set xs. json_depth x \<le> d \<Longrightarrow> json_depth (JArr xs) \<le> Suc d"
  by simp

definition response_ok :: "poll_response \<Rightarrow> bool" where
  "response_ok p \<longleftrightarrow> list_all (pred_option command_ok) (pr_Commands p)"

lemma depth_command_ptr: "json_depth (enc_ptr Command_json p) \<le> 2"
  by (cases p) (simp_all add: enc_ptr_def depth_command)

interpretation response_wire: wire_type PollResponse_json "dec_struct PollResponse_fields" zero_response response_ok
proof
  fix p :: poll_response
  assume ok: "response_ok p"
  then show "dec_struct PollResponse_fields zero_response (repair (PollResponse_json p)) = Some p"
    using command_wire.slice_back [of "pr_Commands p"]
    by (cases p; cases "pr_Commands p = []")
       (simp_all add: response_ok_def PollResponse_json_def PollResponse_fields_def zero_response_def opt_slice_def
         wire_defs)
  show "nums_ok (PollResponse_json p)"
    using ok by (auto simp: PollResponse_json_def response_ok_def opt_slice_def list_all_iff
        intro: command_wire.printable_ptr)
next
  fix p :: poll_response
  have "json_depth (JArr (map (enc_ptr Command_json) (pr_Commands p))) \<le> 3"
    using depth_arr [of _ 2] depth_command_ptr by fastforce
  then show "json_depth (PollResponse_json p) \<le> 9"
    by (auto simp: PollResponse_json_def opt_slice_def)
qed (simp add: PollResponse_json_def)

definition hello_ok :: "ws_hello \<Rightarrow> bool" where
  "hello_ok h \<longleftrightarrow> utf8_valid (wh_Type h) \<and> utf8_valid (wh_Token h) \<and> utf8_valid (wh_ClusterID h) \<and> utf8_valid (wh_Version h)"

interpretation hello_wire: wire_type WsHello_json "dec_struct WsHello_fields" zero_hello hello_ok
proof
  fix h :: ws_hello
  show "hello_ok h \<Longrightarrow> dec_struct WsHello_fields zero_hello (repair (WsHello_json h)) = Some h"
    by (cases h) (simp add: hello_ok_def WsHello_json_def WsHello_fields_def zero_hello_def wire_defs)
qed (simp_all add: WsHello_json_def wire_defs)

definition hello_ack_ok :: "ws_hello_ack \<Rightarrow> bool" where
  "hello_ack_ok a \<longleftrightarrow> utf8_valid (wa_Type a) \<and> utf8_valid (wa_Message a)"

interpretation hello_ack_wire: wire_type WsHelloAck_json "dec_struct WsHelloAck_fields" zero_hello_ack hello_ack_ok
proof
  fix a :: ws_hello_ack
  show "hello_ack_ok a \<Longrightarrow> dec_struct WsHelloAck_fields zero_hello_ack (repair (WsHelloAck_json a)) = Some a"
    by (cases a) (simp add: hello_ack_ok_def WsHelloAck_json_def WsHelloAck_fields_def zero_hello_ack_def wire_defs)
qed (simp_all add: WsHelloAck_json_def wire_defs)

definition command_message_ok :: "ws_command_message \<Rightarrow> bool" where
  "command_message_ok m \<longleftrightarrow> utf8_valid (wc_Type m) \<and> pred_option command_ok (wc_Command m)"

interpretation command_message_wire: wire_type WsCommandMessage_json "dec_struct WsCommandMessage_fields"
  zero_command_message command_message_ok
proof
  fix m :: ws_command_message
  assume ok: "command_message_ok m"
  then show "dec_struct WsCommandMessage_fields zero_command_message (repair (WsCommandMessage_json m)) = Some m"
    by (cases m)
       (simp add: command_message_ok_def WsCommandMessage_json_def WsCommandMessage_fields_def
         zero_command_message_def command_wire.opt_ptr_back wire_defs)
  show "nums_ok (WsCommandMessage_json m)"
    using ok by (simp add: WsCommandMessage_json_def command_message_ok_def command_wire.printable_ptr)
next
  fix m :: ws_command_message
  show "json_depth (WsCommandMessage_json m) \<le> 9"
    using depth_command_ptr [of "wc_Command m"] by (simp add: WsCommandMessage_json_def)
qed (simp add: WsCommandMessage_json_def)

definition report_message_ok :: "ws_report_message \<Rightarrow> bool" where
  "report_message_ok m \<longleftrightarrow> utf8_valid (wr_Type m) \<and> pred_option report_ok (wr_Report m)"

lemma depth_report: "json_depth (Report_json r) = 1"
  by (simp add: Report_json_def wire_defs)

interpretation report_message_wire: wire_type WsReportMessage_json "dec_struct WsReportMessage_fields"
  zero_report_message report_message_ok
proof
  fix m :: ws_report_message
  assume ok: "report_message_ok m"
  then show "dec_struct WsReportMessage_fields zero_report_message (repair (WsReportMessage_json m)) = Some m"
    by (cases m)
       (simp add: report_message_ok_def WsReportMessage_json_def WsReportMessage_fields_def
         zero_report_message_def report_wire.opt_ptr_back wire_defs)
  show "nums_ok (WsReportMessage_json m)"
    using ok by (simp add: WsReportMessage_json_def report_message_ok_def report_wire.printable_ptr)
next
  fix m :: ws_report_message
  show "json_depth (WsReportMessage_json m) \<le> 9"
    by (cases "wr_Report m") (simp_all add: WsReportMessage_json_def enc_ptr_def depth_report)
qed (simp add: WsReportMessage_json_def)

text \<open>The bodies a client prints, as the server reads them.\<close>

definition batch_ok :: "inventory_batch \<Rightarrow> bool" where
  "batch_ok b \<longleftrightarrow> utf8_valid (ib_ClusterID b) \<and> int64_ok (ib_Seq b) \<and> list_all event_ok (ib_Events b)"

definition batch_body_of :: "inventory_batch \<Rightarrow> batch_body" where
  "batch_body_of b =
     \<lparr>bb_ClusterID = ib_ClusterID b, bb_Seq = ib_Seq b, bb_Full = ib_Full b, bb_Events = map Some (ib_Events b)\<rparr>"

definition request_ok :: "poll_request \<Rightarrow> bool" where
  "request_ok q \<longleftrightarrow> utf8_valid (pq_ClusterID q) \<and> utf8_valid (pq_Version q) \<and> list_all report_ok (pq_Reports q)"

definition poll_body_of :: "poll_request \<Rightarrow> poll_body" where
  "poll_body_of q =
     \<lparr>pb_ClusterID = pq_ClusterID q, pb_Version = pq_Version q, pb_Reports = map Some (pq_Reports q)\<rparr>"

lemma Decode_json_text:
  assumes "nums_ok v" "json_depth v \<le> 9"
  shows "Decode_into dec zero (json_text v) = dec zero (repair v)"
proof -
  have "json_value (Suc (length (json_text v))) 10000 (json_text v @ []) = Some (repair v, [])"
    using assms by (intro prints_value [OF prints_json_text]) auto
  then show ?thesis by (simp add: Decode_into_def del: json_value.simps)
qed

lemma depth_event: "json_depth (InventoryEvent_json e) = 2"
  by (simp add: InventoryEvent_json_def wire_defs)

lemma batch_read_back:
  assumes "batch_ok b"
  shows "Decode_into (dec_struct InventoryBatch_fields) zero_batch (json_text (InventoryBatch_json b)) =
    Some (batch_body_of b)"
proof -
  have "nums_ok (InventoryBatch_json b)"
    using assms by (auto simp: InventoryBatch_json_def batch_ok_def list_all_iff wire_defs intro: event_wire.printable)
  moreover have "json_depth (JArr (map InventoryEvent_json (ib_Events b))) \<le> 3"
    using depth_arr [of _ 2] depth_event by fastforce
  then have "json_depth (InventoryBatch_json b) \<le> 9"
    by (auto simp: InventoryBatch_json_def wire_defs)
  moreover have "dec_struct InventoryBatch_fields zero_batch (repair (InventoryBatch_json b)) = Some (batch_body_of b)"
    using assms event_wire.slice_back_all [of "ib_Events b"]
    by (cases b; cases "ib_Events b = []")
       (simp_all add: batch_ok_def InventoryBatch_json_def InventoryBatch_fields_def zero_batch_def batch_body_of_def
         wire_defs)
  ultimately show ?thesis by (simp add: Decode_json_text)
qed

lemma request_read_back:
  assumes "request_ok q"
  shows "Decode_into (dec_struct PollRequest_fields) zero_poll (json_text (PollRequest_json q)) =
    Some (poll_body_of q)"
proof -
  have "nums_ok (PollRequest_json q)"
    using assms by (auto simp: PollRequest_json_def request_ok_def list_all_iff opt_slice_def wire_defs
        intro: report_wire.printable)
  moreover have "json_depth (JArr (map Report_json (pq_Reports q))) \<le> 2"
    using depth_arr [of _ 1] depth_report by fastforce
  then have "json_depth (PollRequest_json q) \<le> 9"
    by (auto simp: PollRequest_json_def opt_slice_def wire_defs)
  moreover have "dec_struct PollRequest_fields zero_poll (repair (PollRequest_json q)) = Some (poll_body_of q)"
    using assms report_wire.slice_back_all [of "pq_Reports q"]
    by (cases q; cases "pq_Reports q = []")
       (simp_all add: request_ok_def PollRequest_json_def PollRequest_fields_def zero_poll_def poll_body_of_def
         opt_slice_def wire_defs)
  ultimately show ?thesis by (simp add: Decode_json_text)
qed

end
