(* ===== verification/Caches.thy ===== *)
theory Caches
  imports Complex_Main Protocol
begin

text \<open>
  The bounded containers of \<^verbatim>\<open>internal/receiver\<close>: the first-in-first-out memory of seen keys
  (\<^verbatim>\<open>nonceCache\<close>, used for nonces and for command ids), the queue of undelivered reports
  (\<^verbatim>\<open>reportQueue\<close>), and the exponential backoff. Each satisfies an interface, stated as a locale;
  what the receiver needs of it is proved there once.
\<close>

section \<open>Interfaces\<close>

text \<open>Asking a memory about a sequence of keys: the answers, and the memory afterwards.\<close>

fun seen_all :: "('k \<Rightarrow> 'c \<Rightarrow> bool \<times> 'c) \<Rightarrow> 'k list \<Rightarrow> 'c \<Rightarrow> bool list \<times> 'c" where
  "seen_all seen [] c = ([], c)"
| "seen_all seen (k # ks) c =
     (let (b, c1) = seen k c; (bs, c2) = seen_all seen ks c1 in (b # bs, c2))"

text \<open>
  A memory of keys answers whether it holds the key and records it if not; a full memory forgets
  its oldest key.
\<close>

locale key_memory =
  fixes seen :: "'k \<Rightarrow> 'c \<Rightarrow> bool \<times> 'c"
    and keys :: "'c \<Rightarrow> 'k list"
    and bound :: "'c \<Rightarrow> nat"
    and inv :: "'c \<Rightarrow> bool"
  assumes seen_answer: "inv c \<Longrightarrow> fst (seen k c) \<longleftrightarrow> k \<in> set (keys c)"
    and seen_hit: "inv c \<Longrightarrow> k \<in> set (keys c) \<Longrightarrow> snd (seen k c) = c"
    and seen_miss: "inv c \<Longrightarrow> k \<notin> set (keys c) \<Longrightarrow>
      keys (snd (seen k c)) = drop (Suc (length (keys c)) - bound c) (keys c @ [k])"
    and seen_bound: "bound (snd (seen k c)) = bound c"
    and seen_inv: "inv c \<Longrightarrow> inv (snd (seen k c))"
    and inv_length: "inv c \<Longrightarrow> length (keys c) \<le> bound c"
begin

lemma seen_all_inv: "inv c \<Longrightarrow> inv (snd (seen_all seen ks c))"
proof (induction ks arbitrary: c)
  case (Cons k ks)
  then show ?case
    by (simp add: split_def Let_def seen_inv)
qed simp

lemma seen_length:
  assumes "inv c"
  shows "length (keys (snd (seen k c))) =
    (if fst (seen k c) then length (keys c) else min (bound c) (Suc (length (keys c))))"
  using assms inv_length [OF assms]
  by (cases "k \<in> set (keys c)") (auto simp: seen_hit seen_miss seen_answer min_def)

text \<open>A key at distance \<open>d\<close> from the newest end survives fewer than \<open>bound - d\<close> new keys.\<close>

lemma remembered:
  assumes "inv c" "keys c = xs @ k # ys"
    and "length ys + length (filter Not (fst (seen_all seen ks c))) < bound c"
  shows "k \<in> set (keys (snd (seen_all seen ks c)))"
  using assms
proof (induction ks arbitrary: c xs ys)
  case Nil
  then show ?case by simp
next
  case (Cons j ks)
  obtain b c1 where s: "seen j c = (b, c1)" by fastforce
  obtain bs c2 where r: "seen_all seen ks c1 = (bs, c2)" by fastforce
  have inv1: "inv c1" and bd: "bound c1 = bound c"
    using seen_inv [OF Cons.prems(1), of j] seen_bound [of j c] s by simp_all
  show ?case
  proof (cases b)
    case True
    then have "c1 = c"
      using s Cons.prems(1) seen_hit [of c j] seen_answer [of c j] by simp
    with Cons.IH [OF Cons.prems(1,2)] Cons.prems(3) s r True show ?thesis
      by simp
  next
    case False
    with s Cons.prems(1) have "keys c1 = drop (Suc (length (keys c)) - bound c) (keys c @ [j])"
      using seen_miss [of c j] seen_answer [of c j] by simp
    moreover have "Suc (length (keys c)) - bound c \<le> length xs"
      using Cons.prems(2,3) s r False inv_length [OF Cons.prems(1)] by (simp add: Let_def)
    ultimately obtain zs where k1: "keys c1 = zs @ k # (ys @ [j])"
      using Cons.prems(2) by simp
    have "length (ys @ [j]) + length (filter Not (fst (seen_all seen ks c1))) < bound c1"
      using Cons.prems(3) s r False bd by simp
    with Cons.IH [OF inv1 k1] s r show ?thesis
      by simp
  qed
qed

text \<open>
  Replay protection: after a new key was recorded, asking about it again is answered \<open>True\<close> as long
  as fewer than \<open>bound\<close> other new keys came in between.
\<close>

lemma replay_detected:
  assumes "inv c" "\<not> fst (seen k c)"
    and "length (filter Not (fst (seen_all seen ks (snd (seen k c))))) < bound c"
  shows "fst (seen k (snd (seen_all seen ks (snd (seen k c)))))"
proof -
  let ?c1 = "snd (seen k c)"
  have new: "k \<notin> set (keys c)"
    using assms(1,2) seen_answer by blast
  have inv1: "inv ?c1" using assms(1) by (rule seen_inv)
  have "Suc (length (keys c)) - bound c \<le> length (keys c)"
    using assms(3) by simp
  then have "keys ?c1 = drop (Suc (length (keys c)) - bound c) (keys c) @ k # []"
    using seen_miss [OF assms(1) new] by simp
  then have "k \<in> set (keys (snd (seen_all seen ks ?c1)))"
    using remembered [OF inv1, of _ k "[]" ks] assms(3) seen_bound [of k c] by simp
  then show ?thesis
    using seen_answer seen_all_inv [OF inv1] by blast
qed

text \<open>The converse window: a key is never reported as seen unless it was recorded before.\<close>

lemma seen_only_recorded:
  assumes "inv c" "k \<in> set (keys (snd (seen_all seen ks c)))"
  shows "k \<in> set (keys c) \<union> set ks"
  using assms
proof (induction ks arbitrary: c)
  case (Cons j ks)
  let ?c1 = "snd (seen j c)"
  have "k \<in> set (keys ?c1) \<union> set ks"
    using Cons.IH [OF seen_inv [OF Cons.prems(1)]] Cons.prems(2) by (simp add: split_def Let_def)
  moreover have "set (keys ?c1) \<subseteq> insert j (set (keys c))"
    using Cons.prems(1) seen_hit [of c j] seen_miss [of c j]
    by (cases "j \<in> set (keys c)") (auto dest: in_set_dropD)
  ultimately show ?case
    by auto
qed simp

end

text \<open>
  The history of a memory: the keys it recorded as new, oldest first. Equal keys in it lie further
  apart than the capacity.
\<close>

definition spaced :: "nat \<Rightarrow> 'k list \<Rightarrow> bool" where
  "spaced n h \<longleftrightarrow> (\<forall>i j. i < j \<longrightarrow> j < length h \<longrightarrow> h ! i = h ! j \<longrightarrow> n < j - i)"

lemma spaced_Nil [simp]: "spaced n []"
  by (simp add: spaced_def)

lemma spaced_snoc:
  assumes "spaced n h" "k \<notin> set (drop (length h - n) h)"
  shows "spaced n (h @ [k])"
  unfolding spaced_def
proof (intro allI impI)
  fix i j
  assume ij: "i < j" "j < length (h @ [k])" and eq: "(h @ [k]) ! i = (h @ [k]) ! j"
  show "n < j - i"
  proof (cases "j < length h")
    case True
    with ij eq assms(1) show ?thesis
      by (simp add: spaced_def nth_append)
  next
    case False
    with ij have j: "j = length h" by simp
    with ij eq have k: "h ! i = k" by (simp add: nth_append)
    have "i < length h - n"
    proof (rule ccontr)
      assume "\<not> i < length h - n"
      then have "h ! i \<in> set (drop (length h - n) h)"
        using ij j by (auto simp: in_set_conv_nth intro!: exI [of _ "i - (length h - n)"])
      with assms(2) k show False by simp
    qed
    with j show ?thesis by simp
  qed
qed

lemma spaced_distinct: "spaced n h \<Longrightarrow> length h \<le> Suc n \<Longrightarrow> distinct h"
  by (auto simp: spaced_def distinct_conv_nth nat_neq_iff) (fastforce+)

context key_memory
begin

definition tracks :: "'c \<Rightarrow> 'k list \<Rightarrow> bool" where
  "tracks c h \<longleftrightarrow> inv c \<and> keys c = drop (length h - bound c) h \<and> spaced (bound c) h"

lemma tracks_seen:
  assumes "tracks c h"
  shows "tracks (snd (seen k c)) (if fst (seen k c) then h else h @ [k])"
proof (cases "k \<in> set (keys c)")
  case True
  with assms show ?thesis
    by (simp add: tracks_def seen_answer seen_hit)
next
  case False
  then have "k \<notin> set (drop (length h - bound c) h)"
    using assms by (simp add: tracks_def)
  then have "spaced (bound c) (h @ [k])"
    using assms spaced_snoc by (auto simp: tracks_def)
  moreover have "keys (snd (seen k c)) = drop (length (h @ [k]) - bound c) (h @ [k])"
  proof -
    have "keys (snd (seen k c)) = drop (Suc (length (keys c)) - bound c) (keys c @ [k])"
      using assms False by (simp add: tracks_def seen_miss)
    also have "keys c = drop (length h - bound c) h"
      using assms by (simp add: tracks_def)
    finally show ?thesis
      by (cases "length h \<le> bound c") (auto simp: Suc_diff_le)
  qed
  ultimately show ?thesis
    using assms False by (simp add: tracks_def seen_answer seen_bound seen_inv)
qed

end

text \<open>
  A buffer of items awaiting acknowledgement: new items go to the back, the oldest one is dropped
  when the buffer is full, and an acknowledged snapshot is removed from the front.
\<close>

locale ack_buffer =
  fixes put :: "'r \<Rightarrow> 'q \<Rightarrow> 'q"
    and items :: "'q \<Rightarrow> 'r list"
    and ack :: "'r list \<Rightarrow> 'q \<Rightarrow> 'q"
    and room :: "'q \<Rightarrow> nat"
    and ident :: "'r \<Rightarrow> 'i"
  assumes put_items: "0 < room q \<Longrightarrow> length (items q) \<le> room q \<Longrightarrow>
      items (put r q) = drop (Suc (length (items q)) - room q) (items q @ [r])"
    and put_room: "room (put r q) = room q"
    and ack_items: "items (ack sent q) = dropWhile (\<lambda>r. ident r \<in> ident ` set sent) (items q)"
    and ack_room: "room (ack sent q) = room q"
begin

lemma put_all_items:
  assumes "0 < room q" "length (items q) \<le> room q"
  shows "items (fold put rs q) =
      drop (length (items q) + length rs - room q) (items q @ rs) \<and> room (fold put rs q) = room q"
  using assms
proof (induction rs arbitrary: q)
  case (Cons r rs)
  let ?q1 = "put r q"
  let ?n = "Suc (length (items q)) - room q"
  have i1: "items ?q1 = drop ?n (items q @ [r])" and rm: "room ?q1 = room q"
    using Cons.prems by (simp_all add: put_items put_room)
  have len: "length (items ?q1) \<le> room ?q1"
    using i1 rm Cons.prems by simp
  have n: "?n \<le> Suc (length (items q))" by simp
  have "items (fold put rs ?q1) =
      drop (length (items ?q1) + length rs - room q) (drop ?n (items q @ [r]) @ rs)"
    using Cons.IH [of ?q1] Cons.prems rm len i1 by simp
  also have "drop ?n (items q @ [r]) @ rs = drop ?n (items q @ r # rs)"
    using Cons.prems n by simp
  also have "drop (length (items ?q1) + length rs - room q) (drop ?n (items q @ r # rs)) =
      drop (length (items q) + length (r # rs) - room q) (items q @ r # rs)"
  proof -
    have "length (items ?q1) + length rs - room q + ?n = length (items q) + length (r # rs) - room q"
      using i1 Cons.prems by simp
    then show ?thesis by (simp only: drop_drop)
  qed
  finally show ?case
    using Cons.IH [of ?q1] Cons.prems rm len by simp
qed simp

lemma put_bounded:
  assumes "0 < room q" "length (items q) \<le> room q"
  shows "length (items (fold put rs q)) \<le> room q"
  using put_all_items [OF assms, of rs] by simp

text \<open>
  Acknowledging the snapshot that was taken before \<open>rs\<close> were put removes exactly the snapshot:
  what remains is \<open>rs\<close>, less what the bound itself forced out.
\<close>

lemma ack_snapshot:
  assumes "0 < room q" "length (items q) \<le> room q"
    and fresh: "ident ` set rs \<inter> ident ` set (items q) = {}"
  shows "items (ack (items q) (fold put rs q)) = drop (length rs - room q) rs"
proof -
  let ?n = "length (items q) + length rs - room q"
  have dw: "dropWhile (\<lambda>r. ident r \<in> ident ` set (items q)) (xs @ drop m rs) = drop m rs"
    if "set xs \<subseteq> set (items q)" for xs m
  proof -
    have "dropWhile (\<lambda>r. ident r \<in> ident ` set (items q)) (drop m rs) = drop m rs"
    proof (cases "drop m rs")
      case (Cons y ys)
      then have "y \<in> set rs"
        by (metis in_set_dropD list.set_intros(1))
      with fresh Cons show ?thesis
        by auto
    qed simp
    with that show ?thesis
      by (induction xs) auto
  qed
  have "items (fold put rs q) = drop ?n (items q) @ drop (length rs - room q) rs"
    using put_all_items [OF assms(1,2), of rs] assms(2)
    by (cases "length rs \<le> room q") (auto simp: drop_append)
  then show ?thesis
    using dw [OF set_drop_subset] by (simp add: ack_items)
qed

end

text \<open>A retry policy doubles its base delay from one second up to a cap of thirty.\<close>

locale retry_policy =
  fixes base :: "'b \<Rightarrow> duration"
    and failed :: "'r \<Rightarrow> 'b \<Rightarrow> 'b"
    and fresh :: "'b"
  assumes base_fresh: "base fresh = Second"
    and base_failed: "base (failed rnd b) = min (2 * base b) (30 * Second)"
begin

lemma base_after: "base (fold failed rnds fresh) = min (2 ^ length rnds * Second) (30 * Second)"
  by (induction rnds rule: rev_induct) (auto simp: base_fresh base_failed)

lemma base_range:
  "Second \<le> base (fold failed rnds fresh) \<and> base (fold failed rnds fresh) \<le> 30 * Second"
proof -
  have "(1 :: int) \<le> 2 ^ length rnds" by simp
  then show ?thesis by (simp add: base_after)
qed

end

section \<open>nonceCache\<close>

text \<open>
  The cache of the source: a linked list of the keys in order of arrival, and a map from each key to
  its list element, here to the value that element carries.
\<close>

record nonce_cache =
  nc_cap :: nat
  nc_ll :: "string list"
  nc_m :: "string \<rightharpoonup> string"

definition newNonceCache :: "nat \<Rightarrow> nonce_cache" where
  "newNonceCache cap = \<lparr>nc_cap = cap, nc_ll = [], nc_m = Map.empty\<rparr>"

definition nonce_seen :: "string \<Rightarrow> nonce_cache \<Rightarrow> bool \<times> nonce_cache" where
  "nonce_seen nonce c =
     (if nc_m c nonce \<noteq> None then (True, c)
      else
        (let ll = nc_ll c @ [nonce]; m = (nc_m c)(nonce \<mapsto> nonce) in
         if length ll > nc_cap c
         then (False, c\<lparr>nc_ll := tl ll, nc_m := m(hd ll := None)\<rparr>)
         else (False, c\<lparr>nc_ll := ll, nc_m := m\<rparr>)))"

text \<open>
  The invariant that ties the two structures together. The bound is positive: with capacity 0 the
  list element just pushed would be evicted at once.
\<close>

definition nonce_inv :: "nonce_cache \<Rightarrow> bool" where
  "nonce_inv c \<longleftrightarrow>
     0 < nc_cap c \<and> distinct (nc_ll c) \<and> length (nc_ll c) \<le> nc_cap c \<and>
     (\<forall>k. nc_m c k = (if k \<in> set (nc_ll c) then Some k else None))"

lemma nonce_inv_new [intro]: "0 < cap \<Longrightarrow> nonce_inv (newNonceCache cap)"
  by (simp add: nonce_inv_def newNonceCache_def)

lemma nonce_seen_cap [simp]: "nc_cap (snd (nonce_seen k c)) = nc_cap c"
  by (simp add: nonce_seen_def Let_def)

lemma nonce_seen_inv:
  assumes "nonce_inv c"
  shows "nonce_inv (snd (nonce_seen k c))"
proof (cases "nc_ll c")
  case Nil
  with assms show ?thesis
    by (auto simp: nonce_inv_def nonce_seen_def Let_def)
next
  case (Cons a l)
  with assms show ?thesis
    by (auto simp: nonce_inv_def nonce_seen_def Let_def)
qed

interpretation nonces: key_memory nonce_seen nc_ll nc_cap nonce_inv
proof
  fix c k
  assume inv: "nonce_inv c"
  then show "fst (nonce_seen k c) \<longleftrightarrow> k \<in> set (nc_ll c)"
    and "k \<in> set (nc_ll c) \<Longrightarrow> snd (nonce_seen k c) = c"
    and "length (nc_ll c) \<le> nc_cap c"
    by (auto simp: nonce_inv_def nonce_seen_def Let_def)
  show "nonce_inv (snd (nonce_seen k c))"
    using inv by (rule nonce_seen_inv)
  assume "k \<notin> set (nc_ll c)"
  with inv show "nc_ll (snd (nonce_seen k c)) = drop (Suc (length (nc_ll c)) - nc_cap c) (nc_ll c @ [k])"
    by (cases "nc_ll c")
      (auto simp: nonce_inv_def nonce_seen_def Let_def drop_Suc Suc_diff_le
        split: if_splits dest!: le_antisym)
qed simp

section \<open>reportQueue\<close>

text \<open>
  Reports are heap objects, and \<^verbatim>\<open>clearSent\<close> compares pointers, so a queued report is an address with
  the report stored there.
\<close>

type_synonym report_ptr = "nat \<times> report"

record report_queue =
  rq_cap :: nat
  rq_ll :: "report_ptr list"

definition newReportQueue :: "nat \<Rightarrow> report_queue" where
  "newReportQueue cap = \<lparr>rq_cap = cap, rq_ll = []\<rparr>"

definition rq_enqueue :: "report_ptr \<Rightarrow> report_queue \<Rightarrow> report_queue" where
  "rq_enqueue rep q =
     (let ll = (if length (rq_ll q) \<ge> rq_cap q then tl (rq_ll q) else rq_ll q)
      in q\<lparr>rq_ll := ll @ [rep]\<rparr>)"

definition rq_snapshot :: "report_queue \<Rightarrow> report_ptr list" where
  "rq_snapshot q = rq_ll q"

fun clear_front :: "nat set \<Rightarrow> report_ptr list \<Rightarrow> report_ptr list" where
  "clear_front sent [] = []"
| "clear_front sent (e # es) = (if fst e \<notin> sent then e # es else clear_front sent es)"

definition rq_clearSent :: "report_ptr list \<Rightarrow> report_queue \<Rightarrow> report_queue" where
  "rq_clearSent sent q = q\<lparr>rq_ll := clear_front (set (map fst sent)) (rq_ll q)\<rparr>"

definition rq_len :: "report_queue \<Rightarrow> nat" where
  "rq_len q = length (rq_ll q)"

lemma clear_front_dropWhile: "clear_front sent es = dropWhile (\<lambda>e. fst e \<in> sent) es"
  by (induction es) auto

interpretation reports: ack_buffer rq_enqueue rq_snapshot rq_clearSent rq_cap fst
proof
  fix q r sent
  show "rq_cap (rq_enqueue r q) = rq_cap q" "rq_cap (rq_clearSent sent q) = rq_cap q"
    by (simp_all add: rq_enqueue_def rq_clearSent_def Let_def)
  show "rq_snapshot (rq_clearSent sent q) =
      dropWhile (\<lambda>r. fst r \<in> fst ` set sent) (rq_snapshot q)"
    by (simp add: rq_snapshot_def rq_clearSent_def clear_front_dropWhile)
  assume "0 < rq_cap q" "length (rq_snapshot q) \<le> rq_cap q"
  then show "rq_snapshot (rq_enqueue r q) =
      drop (Suc (length (rq_snapshot q)) - rq_cap q) (rq_snapshot q @ [r])"
    by (cases "length (rq_ll q) = rq_cap q")
      (auto simp: rq_snapshot_def rq_enqueue_def Let_def drop_Suc tl_append split: list.splits)
qed

section \<open>Backoff\<close>

record backoff =
  bo_d :: duration
  bo_authLogged :: bool

abbreviation backoffMin :: duration where "backoffMin \<equiv> Second"
abbreviation backoffMax :: duration where "backoffMax \<equiv> 30 * Second"

text \<open>Conversion of a real number to a Go integer drops the fraction.\<close>

definition trunc_rat :: "rat \<Rightarrow> int" where
  "trunc_rat x = (if x \<ge> 0 then \<lfloor>x\<rfloor> else \<lceil>x\<rceil>)"

text \<open>\<open>next\<close>, with the value of \<^verbatim>\<open>rand.Float64()\<close>, a number in [0, 1), as an argument.\<close>

definition backoff_next :: "rat \<Rightarrow> backoff \<Rightarrow> duration \<times> backoff" where
  "backoff_next rnd b =
     (let d = (if bo_d b < backoffMin then backoffMin else bo_d b);
          d2 = (if 2 * d > backoffMax then backoffMax else 2 * d)
      in (d + trunc_rat ((rnd * (4 / 10) - 2 / 10) * of_int d), b\<lparr>bo_d := d2\<rparr>))"

definition backoff_reset :: "backoff \<Rightarrow> backoff" where
  "backoff_reset b = b\<lparr>bo_d := 0, bo_authLogged := False\<rparr>"

definition backoff_base :: "backoff \<Rightarrow> duration" where
  "backoff_base b = (if bo_d b < backoffMin then backoffMin else bo_d b)"

interpretation receiver_backoff: retry_policy backoff_base "\<lambda>rnd b. snd (backoff_next rnd b)" "backoff_reset b0"
  by unfold_locales (auto simp: backoff_base_def backoff_next_def backoff_reset_def Let_def)

lemma trunc_rat_bounds:
  assumes "- 1 / 5 \<le> x" "x < 1 / 5" "0 \<le> d"
  shows "- d \<le> 5 * trunc_rat (x * of_int d) \<and> 5 * trunc_rat (x * of_int d) \<le> d"
proof -
  have hi: "x * of_int d \<le> of_int d / 5" and lo: "- of_int d / 5 \<le> x * of_int d"
    using assms mult_right_mono [of x "1 / 5" "of_int d"] mult_right_mono [of "- 1 / 5" x "of_int d"]
    by auto
  show ?thesis
  proof (cases "x * of_int d \<ge> 0")
    case True
    then have "of_int (5 * \<lfloor>x * of_int d\<rfloor>) \<le> (of_int d :: rat)"
      using hi of_int_floor_le [of "x * of_int d"] by linarith
    then have "5 * \<lfloor>x * of_int d\<rfloor> \<le> d" by (simp only: of_int_le_iff)
    moreover have "0 \<le> \<lfloor>x * of_int d\<rfloor>" using True by simp
    moreover have "trunc_rat (x * of_int d) = \<lfloor>x * of_int d\<rfloor>" using True by (simp add: trunc_rat_def)
    ultimately show ?thesis using assms(3) by linarith
  next
    case False
    then have "(of_int (- d) :: rat) \<le> of_int (5 * \<lceil>x * of_int d\<rceil>)"
      using lo le_of_int_ceiling [of "x * of_int d"] by linarith
    then have "- d \<le> 5 * \<lceil>x * of_int d\<rceil>" by (simp only: of_int_le_iff)
    moreover have "\<lceil>x * of_int d\<rceil> \<le> 0" using False by (simp add: ceiling_le_zero)
    moreover have "trunc_rat (x * of_int d) = \<lceil>x * of_int d\<rceil>" using False by (simp add: trunc_rat_def)
    ultimately show ?thesis using assms(3) by linarith
  qed
qed

lemma backoff_next_jitter:
  assumes "0 \<le> rnd" "rnd < 1" "backoffMin \<le> backoff_base b"
  shows "4 * backoff_base b \<le> 5 * fst (backoff_next rnd b) \<and>
    5 * fst (backoff_next rnd b) \<le> 6 * backoff_base b"
  using trunc_rat_bounds [of "rnd * (4 / 10) - 2 / 10" "backoff_base b"] assms
  by (simp add: backoff_next_def backoff_base_def Let_def)

section \<open>Properties\<close>

text \<open>
  The replay cache, after any history of keys: its list and its map stay consistent and within
  capacity; a key is reported as seen only if it occurred in the history; and once a key has been
  recorded, asking about it again reports it as seen until at least \<^verbatim>\<open>cap\<close> other new keys were
  recorded after it.
\<close>

theorem nonce_cache_window:
  assumes "0 < cap" "c = snd (seen_all nonce_seen history (newNonceCache cap))"
  shows "nonce_inv c \<and>
    (fst (nonce_seen k c) \<longrightarrow> k \<in> set history) \<and>
    (\<forall>later. \<not> fst (nonce_seen k c) \<and>
       length (filter Not (fst (seen_all nonce_seen later (snd (nonce_seen k c))))) < cap \<longrightarrow>
       fst (nonce_seen k (snd (seen_all nonce_seen later (snd (nonce_seen k c))))))"
proof -
  have inv: "nonce_inv c"
    using assms nonces.seen_all_inv by blast
  have "nc_cap (snd (seen_all nonce_seen ks d)) = nc_cap d" for ks d
    by (induction ks arbitrary: d) (simp_all add: split_def Let_def)
  then have cap: "nc_cap c = cap"
    using assms(2) by (simp add: newNonceCache_def)
  have "k \<in> set history" if "fst (nonce_seen k c)"
    using that nonces.seen_only_recorded [OF nonce_inv_new [OF assms(1)], of k history]
      nonces.seen_answer [OF inv, of k] assms(2)
    by (auto simp: newNonceCache_def)
  then show ?thesis
    using inv nonces.replay_detected [OF inv, of k] cap by blast
qed

theorem nonce_cache_window_witness:
  "fst (nonce_seen ''a'' (snd (seen_all nonce_seen [''b''] (snd (nonce_seen ''a'' (newNonceCache 2))))))"
proof -
  have "(0 :: nat) < 2" "newNonceCache 2 = snd (seen_all nonce_seen [] (newNonceCache 2))" by simp_all
  note window = nonce_cache_window [OF this, of "''a''"]
  have "\<not> fst (nonce_seen ''a'' (newNonceCache 2)) \<and>
      length (filter Not (fst (seen_all nonce_seen [''b''] (snd (nonce_seen ''a'' (newNonceCache 2)))))) < 2"
    by (simp add: nonce_seen_def newNonceCache_def)
  with window show ?thesis by blast
qed

text \<open>
  No report is lost to an acknowledgement: if the poll that carried the snapshot of the queue is
  acknowledged after further reports with new addresses were enqueued, the queue afterwards holds
  exactly those further reports, in order, less only what the capacity itself forced out.
\<close>

theorem clearSent_keeps_unsent:
  assumes "0 < rq_cap q" "rq_len q \<le> rq_cap q"
    and "fst ` set rs \<inter> fst ` set (rq_snapshot q) = {}"
  shows "rq_snapshot (rq_clearSent (rq_snapshot q) (fold rq_enqueue rs q)) =
    drop (length rs - rq_cap q) rs"
  using assms reports.ack_snapshot [of q rs] by (simp add: rq_len_def rq_snapshot_def)

definition demo_report :: "string \<Rightarrow> report" where
  "demo_report st =
     \<lparr>r_ClusterID = ''k1'', r_CommandID = ''c-1'', r_Status = st, r_Message = '''', r_Diff = '''',
      r_Progress = 0, r_Timestamp = 1700000000\<rparr>"

theorem clearSent_keeps_unsent_witness:
  "let q = fold rq_enqueue [(0, demo_report StatusReceived), (1, demo_report StatusValidating)]
         (newReportQueue 2);
       rs = [(2, demo_report StatusApplying), (3, demo_report StatusFailed)]
   in rq_snapshot (rq_clearSent (rq_snapshot q) (fold rq_enqueue rs q)) = rs"
  unfolding Let_def
  by (subst clearSent_keeps_unsent)
    (simp_all add: rq_enqueue_def newReportQueue_def rq_len_def rq_snapshot_def)

text \<open>
  The retry delays of the poll loop: after a reset and \<open>n\<close> failures, the next one waits for the base delay
  min(2 ^ n, 30) seconds with a jitter of at most 20 percent either way, so every delay lies
  between 0.8 and 36 seconds, whatever the random numbers were.
\<close>

theorem backoff_delay_bounds:
  assumes "0 \<le> rnd" "rnd < 1"
  shows "let b = fold (\<lambda>rnd b. snd (backoff_next rnd b)) rnds (backoff_reset b0);
             base = min (2 ^ length rnds * Second) (30 * Second);
             delay = fst (backoff_next rnd b)
         in 4 * base \<le> 5 * delay \<and> 5 * delay \<le> 6 * base \<and>
            800 * Millisecond \<le> delay \<and> delay \<le> 36 * Second"
proof -
  let ?b = "fold (\<lambda>rnd b. snd (backoff_next rnd b)) rnds (backoff_reset b0)"
  have base: "backoff_base ?b = min (2 ^ length rnds * Second) (30 * Second)"
    by (rule receiver_backoff.base_after)
  have rng: "Second \<le> backoff_base ?b" "backoff_base ?b \<le> 30 * Second"
    using receiver_backoff.base_range by blast+
  have "4 * backoff_base ?b \<le> 5 * fst (backoff_next rnd ?b)"
    "5 * fst (backoff_next rnd ?b) \<le> 6 * backoff_base ?b"
    using backoff_next_jitter [OF assms rng(1)] by blast+
  with rng show ?thesis
    unfolding Let_def base [symmetric] by linarith
qed

theorem backoff_delay_bounds_witness:
  "let delay = fst (backoff_next (1 / 2)
        (fold (\<lambda>rnd b. snd (backoff_next rnd b)) [0, 1 / 4, 9 / 10]
          (backoff_reset \<lparr>bo_d = 5, bo_authLogged = True\<rparr>)))
   in 800 * Millisecond \<le> delay \<and> delay \<le> 36 * Second"
  using backoff_delay_bounds [of "1 / 2" "[0, 1 / 4, 9 / 10]" "\<lparr>bo_d = 5, bo_authLogged = True\<rparr>"]
  unfolding Let_def by simp

end
