(* ===== verification/Metrics.thy ===== *)
theory Metrics
  imports Protocol
begin

text \<open>
  The packages \<^verbatim>\<open>internal/metrics\<close> and \<^verbatim>\<open>internal/server\<close>: the six metric series as a record of the
  values stored in them, one operation per helper, and the health endpoints over the readiness
  flag. The text exposition of \<^verbatim>\<open>/metrics\<close> belongs to the Prometheus library and is a parameter.
\<close>

section \<open>Metrics\<close>

text \<open>Gauges hold an integer here (the lag in nanoseconds); counters only grow.\<close>

record metrics =
  cacheSyncLag :: "string \<Rightarrow> duration option"
  commandsTotal :: "string \<times> string \<Rightarrow> nat"
  tunnelConnected :: int
  drainProgress :: "string \<Rightarrow> int option"
  uploadQueueDepth :: int
  inventoryEventsSent :: nat

definition metrics_init :: metrics where
  "metrics_init =
     \<lparr>cacheSyncLag = Map.empty, commandsTotal = (\<lambda>_. 0), tunnelConnected = 0,
      drainProgress = Map.empty, uploadQueueDepth = 0, inventoryEventsSent = 0\<rparr>"

definition ObserveCacheSyncLag :: "string \<Rightarrow> duration \<Rightarrow> metrics \<Rightarrow> metrics" where
  "ObserveCacheSyncLag resource d m = m\<lparr>cacheSyncLag := (cacheSyncLag m)(resource \<mapsto> d)\<rparr>"

definition IncCommand :: "string \<Rightarrow> string \<Rightarrow> metrics \<Rightarrow> metrics" where
  "IncCommand verb result m =
     m\<lparr>commandsTotal := (commandsTotal m)((verb, result) := Suc (commandsTotal m (verb, result)))\<rparr>"

definition SetTunnelConnected :: "bool \<Rightarrow> metrics \<Rightarrow> metrics" where
  "SetTunnelConnected connected m = m\<lparr>tunnelConnected := (if connected then 1 else 0)\<rparr>"

definition SetDrainProgress :: "string \<Rightarrow> int \<Rightarrow> metrics \<Rightarrow> metrics" where
  "SetDrainProgress node pct m = m\<lparr>drainProgress := (drainProgress m)(node \<mapsto> pct)\<rparr>"

definition ClearDrainProgress :: "string \<Rightarrow> metrics \<Rightarrow> metrics" where
  "ClearDrainProgress node m = m\<lparr>drainProgress := (drainProgress m)(node := None)\<rparr>"

definition SetQueueDepth :: "int \<Rightarrow> metrics \<Rightarrow> metrics" where
  "SetQueueDepth n m = m\<lparr>uploadQueueDepth := n\<rparr>"

definition IncInventoryEvents :: "nat \<Rightarrow> metrics \<Rightarrow> metrics" where
  "IncInventoryEvents n m = m\<lparr>inventoryEventsSent := inventoryEventsSent m + n\<rparr>"

section \<open>The health server\<close>

record server_state = ss_ready :: bool

definition server_New :: server_state where
  "server_New = \<lparr>ss_ready = False\<rparr>"

definition SetReady :: "bool \<Rightarrow> server_state \<Rightarrow> server_state" where
  "SetReady ready s = s\<lparr>ss_ready := ready\<rparr>"

text \<open>
  The handler's answer, a status and the value of the \<^verbatim>\<open>status\<close> field (or the exposition of the
  registry); the mux answers every other path with 404.
\<close>

definition server_Handler :: "string \<Rightarrow> server_state \<Rightarrow> string \<Rightarrow> int \<times> string" where
  "server_Handler exposition s path =
     (if path = ''/metrics'' then (200, exposition)
      else if path = ''/healthz'' then (200, ''ok'')
      else if path = ''/readyz'' then
        (if \<not> ss_ready s then (503, ''caches syncing'') else (200, ''ok''))
      else (404, ''404 page not found''))"

text \<open>
  \<^verbatim>\<open>State.Run\<close>: the listener's error if it comes first, otherwise a clean shutdown when the
  context ends. \<^verbatim>\<open>http.ErrServerClosed\<close> is not an error.
\<close>

datatype server_event = ListenFailed string | ListenClosed | ContextDone

definition server_Run :: "server_event \<Rightarrow> string option" where
  "server_Run first =
     (case first of ListenFailed e \<Rightarrow> Some e | ListenClosed \<Rightarrow> None | ContextDone \<Rightarrow> None)"

end
