(* ===== verification/Uploader.thy ===== *)
theory Uploader
  imports Wire Caches Metrics
begin

text \<open>
  The package \<^verbatim>\<open>internal/uploader\<close>, one definition per function: the event buffer with its byte and
  count budget, the spill file, the persisted sequence number and the transmission of one batch. The
  two files of the spill directory are part of the state; what each file operation does is an input of the
  call (\<open>fs_io\<close>), so every error branch of the source is a branch here. The loop \<^verbatim>\<open>Run\<close> and its
  interleaving with \<^verbatim>\<open>Enqueue\<close> follow in the next theory.
\<close>

section \<open>State\<close>

abbreviation defaultCapacity :: nat where "defaultCapacity \<equiv> 10000"
abbreviation batchSize :: nat where "batchSize \<equiv> 200"
abbreviation defaultMaxBatchBytes :: nat where "defaultMaxBatchBytes \<equiv> 512 * 2 ^ 10"
abbreviation eventOverhead :: nat where "eventOverhead \<equiv> 256"
abbreviation initialBackoff :: duration where "initialBackoff \<equiv> Second"
abbreviation maxBackoff :: duration where "maxBackoff \<equiv> 30 * Second"
abbreviation maxSpillLineSize :: nat where "maxSpillLineSize \<equiv> 10 * 2 ^ 20"

record uploader =
  up_clusterID :: string
  up_capacity :: nat
  up_maxBatchBytes :: nat
  up_buf :: "inventory_event list"
  up_spill :: bool
  up_notify :: bool
  up_seq :: int64
  up_needSnapshot :: bool
  up_metrics :: metrics

text \<open>\<open>up_spill\<close> says that the spill file is open; the disk holds the contents of the two files.\<close>

record disk =
  dk_spill :: "bytes option"
  dk_seq :: "bytes option"

text \<open>
  The outcome of the file operations of one call: a failing write leaves a prefix of its data behind, a
  failing read (\<open>io_read = Some n\<close>) ends the file after \<open>n\<close> bytes.
\<close>

datatype write_result = Wrote | WroteShort nat

record fs_io =
  io_mkdir :: bool
  io_open :: bool
  io_read :: "nat option"
  io_write :: write_result
  io_remove :: bool

definition good_io :: fs_io where
  "good_io = \<lparr>io_mkdir = True, io_open = True, io_read = None, io_write = Wrote, io_remove = True\<rparr>"

definition written :: "write_result \<Rightarrow> bytes \<Rightarrow> bytes" where
  "written w b = (case w of Wrote \<Rightarrow> b | WroteShort n \<Rightarrow> take n b)"

definition read_part :: "fs_io \<Rightarrow> bytes \<Rightarrow> bytes" where
  "read_part io c = (case io_read io of None \<Rightarrow> c | Some n \<Rightarrow> take n c)"

section \<open>The sequence number\<close>

text \<open>A file that cannot be read counts as absent, even when the reading only stopped early.\<close>

definition readSeq :: "fs_io \<Rightarrow> disk \<Rightarrow> int64" where
  "readSeq io d =
     (case dk_seq d of
        None \<Rightarrow> 0
      | Some data \<Rightarrow>
          if \<not> io_open io \<or> io_read io \<noteq> None then 0
          else case ParseInt (TrimSpace data) of None \<Rightarrow> 0 | Some seq \<Rightarrow> if seq < 0 then 0 else seq)"

definition persistSeq :: "fs_io \<Rightarrow> uploader \<Rightarrow> disk \<Rightarrow> disk" where
  "persistSeq io u d =
     (if \<not> io_mkdir io \<or> \<not> io_open io then d
      else d\<lparr>dk_seq := Some (written (io_write io) (FormatInt (up_seq u)))\<rparr>)"

definition NewWithCapacity :: "config \<Rightarrow> fs_io \<Rightarrow> disk \<Rightarrow> nat \<Rightarrow> uploader" where
  "NewWithCapacity cfg io d capacity =
     \<lparr>up_clusterID = ClusterID cfg, up_capacity = capacity, up_maxBatchBytes = defaultMaxBatchBytes, up_buf = [],
      up_spill = False, up_notify = False, up_seq = readSeq io d, up_needSnapshot = True,
      up_metrics = metrics_init\<rparr>"

definition uploader_New :: "config \<Rightarrow> fs_io \<Rightarrow> disk \<Rightarrow> uploader" where
  "uploader_New cfg io d = NewWithCapacity cfg io d defaultCapacity"

section \<open>The spill file\<close>

definition spill_line :: "inventory_event \<Rightarrow> bytes" where
  "spill_line ev = json_text (InventoryEvent_json ev) @ [newline]"

definition spillLocked :: "fs_io \<Rightarrow> inventory_event \<Rightarrow> uploader \<times> disk \<Rightarrow> uploader \<times> disk" where
  "spillLocked io ev = (\<lambda>(u, d).
     if \<not> up_spill u \<and> (\<not> io_mkdir io \<or> \<not> io_open io) then (u, d)
     else
       (let c = (case dk_spill d of Some c \<Rightarrow> c | None \<Rightarrow> []) in
        (u\<lparr>up_spill := True\<rparr>, d\<lparr>dk_spill := Some (c @ written (io_write io) (spill_line ev))\<rparr>)))"

text \<open>
  The lines a \<^verbatim>\<open>bufio.Scanner\<close> with a buffer of \<open>cap\<close> bytes finds: it stops with an error at a line that does not
  fit, and drops a carriage return at the end of a line.
\<close>

definition dropCR :: "string \<Rightarrow> string" where
  "dropCR s = (if s \<noteq> [] \<and> last s = CHR 0x0D then butlast s else s)"

function scan_lines :: "nat \<Rightarrow> bytes \<Rightarrow> string list \<times> bool" where
  "scan_lines cap s =
     (if s = [] then ([], False)
      else
        (let line = takeWhile (\<lambda>c. c \<noteq> newline) s; rest = dropWhile (\<lambda>c. c \<noteq> newline) s in
         if cap \<le> length line then ([], True)
         else (case scan_lines cap (tl rest) of (ls, err) \<Rightarrow> (dropCR line # ls, err))))"
  by pat_completeness auto
termination
proof (relation "measure (length \<circ> snd)")
  fix cap :: nat and s :: bytes and line rest
  assume "s \<noteq> []" "rest = dropWhile (\<lambda>c. c \<noteq> newline) s"
  moreover have "length (dropWhile (\<lambda>c. c \<noteq> newline) s) \<le> length s" by (rule length_dropWhile_le)
  ultimately show "((cap, tl rest), cap, s) \<in> measure (length \<circ> snd)" by (cases s) auto
qed simp

declare scan_lines.simps [simp del]

definition decode_event :: "bytes \<Rightarrow> inventory_event option" where
  "decode_event = Unmarshal_into (dec_struct InventoryEvent_fields) zero_event"

definition spill_events :: "bytes \<Rightarrow> inventory_event list" where
  "spill_events c = List.map_filter decode_event (filter (\<lambda>l. l \<noteq> []) (fst (scan_lines maxSpillLineSize c)))"

definition replaySpillLocked :: "fs_io \<Rightarrow> uploader \<times> disk \<Rightarrow> uploader \<times> disk" where
  "replaySpillLocked io = (\<lambda>(u0, d).
     (let u = u0\<lparr>up_spill := False\<rparr> in
      case dk_spill d of
        None \<Rightarrow> (u, d)
      | Some c \<Rightarrow>
          if \<not> io_open io then (u, d)
          else
            (let events = spill_events (read_part io c) in
             if events = [] then (u, d)
             else
               (let buf = up_buf u @ events in
                (u\<lparr>up_buf := buf, up_metrics := SetQueueDepth (int (length buf)) (up_metrics u)\<rparr>,
                 if io_remove io then d\<lparr>dk_spill := None\<rparr> else d)))))"

section \<open>The buffer\<close>

definition signal :: "uploader \<Rightarrow> uploader" where
  "signal u = u\<lparr>up_notify := True\<rparr>"

definition Enqueue :: "fs_io \<Rightarrow> inventory_event \<Rightarrow> uploader \<times> disk \<Rightarrow> uploader \<times> disk" where
  "Enqueue io ev = (\<lambda>(u, d).
     (if length (up_buf u) < up_capacity u then
        (let buf = up_buf u @ [ev] in
         (signal (u\<lparr>up_buf := buf, up_metrics := SetQueueDepth (int (length buf)) (up_metrics u)\<rparr>), d))
      else (case spillLocked io ev (u, d) of (u', d') \<Rightarrow> (signal u', d'))))"

definition eventSize :: "inventory_event \<Rightarrow> nat" where
  "eventSize ev = length (ev_ObjectJSON ev) + eventOverhead"

text \<open>
  The loop of \<^verbatim>\<open>batchLen\<close>: how many more of the events fit, \<open>k\<close> of them at most. The function is called on
  non-empty slices only (on an empty one the source would be out of range).
\<close>

fun batch_more :: "nat \<Rightarrow> nat \<Rightarrow> nat \<Rightarrow> inventory_event list \<Rightarrow> nat" where
  "batch_more (Suc k) bytes maxBytes (e # es) =
     (if bytes + eventSize e \<le> maxBytes then Suc (batch_more k (bytes + eventSize e) maxBytes es) else 0)"
| "batch_more _ _ _ _ = 0"

fun batchLen :: "inventory_event list \<Rightarrow> nat \<Rightarrow> nat \<Rightarrow> nat" where
  "batchLen (e # es) maxEvents maxBytes =
     Suc (batch_more (min maxEvents (length (e # es)) - 1) (eventSize e) maxBytes es)"
| "batchLen [] maxEvents maxBytes = 0"

definition up_take :: "fs_io \<Rightarrow> nat \<Rightarrow> uploader \<times> disk \<Rightarrow> inventory_event list \<times> uploader \<times> disk" where
  "up_take io n s =
     (case (if up_buf (fst s) = [] then replaySpillLocked io s else s) of (u, d) \<Rightarrow>
        if up_buf u = [] then ([], u, d)
        else
          (let k = batchLen (up_buf u) n (up_maxBatchBytes u); buf = drop k (up_buf u) in
           (take k (up_buf u),
            u\<lparr>up_buf := buf, up_metrics := SetQueueDepth (int (length buf)) (up_metrics u)\<rparr>, d)))"

definition requeueFront :: "inventory_event list \<Rightarrow> uploader \<Rightarrow> uploader" where
  "requeueFront events u =
     (let buf = events @ up_buf u in
      signal (u\<lparr>up_buf := buf, up_metrics := SetQueueDepth (int (length buf)) (up_metrics u)\<rparr>))"

section \<open>Sending\<close>

definition batch_of :: "uploader \<Rightarrow> inventory_event list \<Rightarrow> bool \<Rightarrow> inventory_batch" where
  "batch_of u events full =
     \<lparr>ib_ClusterID = up_clusterID u, ib_Seq = wrap64 (up_seq u + 1), ib_Full = full, ib_Events = events\<rparr>"

type_synonym batch_sender = "inventory_batch \<Rightarrow> post_error + inventory_ack"

definition sendBatch ::
  "batch_sender \<Rightarrow> fs_io \<Rightarrow> inventory_event list \<Rightarrow> bool \<Rightarrow> uploader \<times> disk \<Rightarrow> post_error option \<times> uploader \<times> disk" where
  "sendBatch send io events full = (\<lambda>(u, d).
     (let b = batch_of u events full in
      case send b of
        Inl e \<Rightarrow> (Some e, u, d)
      | Inr ack \<Rightarrow>
          (let u' = u\<lparr>up_seq := ib_Seq b\<rparr> in
           (None, u'\<lparr>up_metrics := IncInventoryEvents (length events) (up_metrics u')\<rparr>, persistSeq io u' d))))"

text \<open>The delays between attempts, with the jitter \<open>rnd\<close> drawn from 0 to 1.\<close>

definition up_sleep :: "rat \<Rightarrow> duration \<Rightarrow> duration" where
  "up_sleep rnd d = trunc_rat (of_int d * (8 / 10 + 4 / 10 * rnd))"

definition next_backoff :: "duration \<Rightarrow> duration" where
  "next_backoff b = min (b * 2) maxBackoff"

interpretation uploader_backoff: retry_policy "\<lambda>b. b" "\<lambda>rnd :: rat. next_backoff" initialBackoff
  by unfold_locales (auto simp: next_backoff_def)

section \<open>The budget of a batch\<close>

definition total_size :: "inventory_event list \<Rightarrow> nat" where
  "total_size es = sum_list (map eventSize es)"

lemma batch_more_bound: "batch_more k bytes m es \<le> k \<and> batch_more k bytes m es \<le> length es"
  by (induction k bytes m es rule: batch_more.induct) auto

lemma batch_more_budget: "bytes \<le> m \<Longrightarrow> bytes + total_size (take (batch_more k bytes m es) es) \<le> m"
  by (induction k bytes m es rule: batch_more.induct) (auto simp: total_size_def)

lemma batch_more_zero: "m < bytes \<Longrightarrow> batch_more k bytes m es = 0"
  by (induction k bytes m es rule: batch_more.induct) auto

lemma batch_more_maximal:
  "batch_more k bytes m es < min k (length es) \<Longrightarrow>
   m < bytes + total_size (take (Suc (batch_more k bytes m es)) es)"
  by (induction k bytes m es rule: batch_more.induct) (auto simp: total_size_def)

lemma batchLen_pos [simp]: "es \<noteq> [] \<Longrightarrow> 0 < batchLen es n m"
  by (cases es) simp_all

lemma batchLen_0 [simp]: "batchLen es n m = 0 \<longleftrightarrow> es = []"
  by (cases es) simp_all

lemma batchLen_le: "batchLen es n m \<le> length es"
  using batch_more_bound [of _ _ m "tl es"] by (cases es) auto

section \<open>The spill file is read back\<close>

lemma utf8_size_shape:
  "utf8_size (a # cs) = Some n \<Longrightarrow> 0x80 \<le> (of_char a :: nat) \<Longrightarrow>
   (\<exists>b r. cs = b # r \<and> n = 2 \<and> second_ok (of_char a) (of_char b)) \<or>
   (\<exists>b d r. cs = b # d # r \<and> n = 3 \<and> second_ok (of_char a) (of_char b) \<and> cont_byte d) \<or>
   (\<exists>b d e r. cs = b # d # e # r \<and> n = 4 \<and> second_ok (of_char a) (of_char b) \<and> cont_byte d \<and> cont_byte e)"
  by (simp add: utf8_size_def Let_def split: list.splits if_splits)

lemma utf8_size_high:
  assumes "utf8_size s = Some n" "0x80 \<le> (of_char (hd s) :: nat)" "c \<in> set (take n s)"
  shows "0x80 \<le> (of_char c :: nat)"
proof -
  obtain a cs where s: "s = a # cs" using assms(1) by (cases s) (simp_all add: utf8_size_def)
  have second: "0x80 \<le> (of_char b :: nat)" if "second_ok x (of_char b)" for x b
    using that by (auto simp: second_ok_def split: if_splits)
  have "utf8_size (a # cs) = Some n" "0x80 \<le> (of_char a :: nat)" using assms s by simp_all
  from utf8_size_shape [OF this] show ?thesis
    using assms second s by (elim disjE exE) (auto simp: cont_byte_def)
qed

lemma esc_ascii_printable: "c \<in> set (esc_ascii a) \<Longrightarrow> 0x20 \<le> (of_char c :: nat)"
proof -
  have "0x20 \<le> (of_char (hex_digit n) :: nat)" if "n < 16" for n
    using that by (auto simp: hex_digit_def)
  then have hex: "0x20 \<le> (of_char (hex_digit (of_char a div 16)) :: nat)" "0x20 \<le> (of_char (hex_digit (of_char a mod 16)) :: nat)"
    by simp_all
  have "list_all (\<lambda>c. 0x20 \<le> (of_char c :: nat)) (esc_ascii a)"
  proof (cases "a = CHR 0x5C \<or> a = CHR 0x22")
    case True
    then show ?thesis by (elim disjE) (simp_all add: esc_ascii_def)
  next
    case False
    then show ?thesis using hex by (simp add: esc_ascii_def)
  qed
  then show "c \<in> set (esc_ascii a) \<Longrightarrow> 0x20 \<le> (of_char c :: nat)" by (simp add: list_all_iff)
qed

lemma json_escape_printable: "c \<in> set (json_escape s) \<Longrightarrow> 0x20 \<le> (of_char c :: nat)"
proof (induction s rule: json_escape.induct)
  case (1 s)
  show ?case
  proof (cases s)
    case (Cons a as)
    show ?thesis
    proof (cases "(of_char a :: nat) < 0x80")
      case True
      then have "json_escape s = esc_ascii a @ json_escape as"
        using Cons by (simp add: json_escape.simps [of "a # as"])
      then show ?thesis using 1 Cons True esc_ascii_printable by auto
    next
      case False
      show ?thesis
      proof (cases "utf8_size s")
        case None
        then have "json_escape s = CHR 0x5C # ''ufffd'' @ json_escape as"
          using Cons False by (simp add: json_escape.simps [of "a # as"])
        then show ?thesis using 1 Cons False None by auto
      next
        case (Some n)
        then have eq: "json_escape s =
            (if take n s = [CHR 0xE2, CHR 0x80, CHR 0xA8] then CHR 0x5C # ''u2028''
             else if take n s = [CHR 0xE2, CHR 0x80, CHR 0xA9] then CHR 0x5C # ''u2029''
             else take n s) @ json_escape (drop n s)"
          using Cons False by (simp add: json_escape.simps [of "a # as"])
        have "0x20 \<le> (of_char c :: nat)" if "c \<in> set (take n s)"
          using utf8_size_high [OF Some _ that] False Cons by simp
        then show ?thesis
          using "1.IH"(3) [OF Cons False Some] "1.prems" eq by (auto split: if_splits)
      qed
    qed
  qed (use 1 in \<open>simp add: json_escape.simps\<close>)
qed

lemma json_escape_plain:
  "list_all (\<lambda>c. (of_char c :: nat) < 0x80 \<and> esc_ascii c = [c]) s \<Longrightarrow> json_escape s = s"
proof (induction s)
  case (Cons c s)
  then show ?case by (subst json_escape.simps) simp
qed (simp add: json_escape.simps)

lemma json_quote_no_newline [simp]: "newline \<notin> set (json_quote s)"
  using json_escape_printable [of newline s] by (auto simp: json_quote_def)

lemma commas_set: "set (commas ts) \<subseteq> insert (CHR '','') (\<Union>t \<in> set ts. set t)"
  by (induction ts rule: commas.induct) auto

lemma commas_no_newline: "\<forall>t \<in> set ts. newline \<notin> set t \<Longrightarrow> newline \<notin> set (commas ts)"
  using commas_set [of ts] by auto

lemma members_no_newline: "\<forall>p \<in> set ms. newline \<notin> set (snd p) \<Longrightarrow> newline \<notin> set (json_members ms)"
  using commas_no_newline [of "map (\<lambda>(k, t). json_quote k @ '':'' @ t) ms"]
  by (fastforce simp: json_members_def)

lemma ref_no_newline [simp]: "newline \<notin> set (json_text (ResourceRef_json r))"
  unfolding ResourceRef_json_def json_text.simps by (rule members_no_newline) (simp add: wire_defs)

lemma event_no_newline [simp]: "newline \<notin> set (json_text (InventoryEvent_json ev))"
  unfolding InventoryEvent_json_def json_text.simps by (rule members_no_newline) (simp add: wire_defs)

lemma event_text_last: "json_text (InventoryEvent_json ev) \<noteq> [] \<and> last (json_text (InventoryEvent_json ev)) = CHR ''}''"
  by (simp add: InventoryEvent_json_def json_members_def)

text \<open>The events that the spill file can hold: text in UTF-8, a time in range, a line that fits the scanner.\<close>

definition spillable :: "inventory_event \<Rightarrow> bool" where
  "spillable ev \<longleftrightarrow> event_ok ev \<and> length (json_text (InventoryEvent_json ev)) < maxSpillLineSize"

lemma scan_lines_line:
  assumes "newline \<notin> set t" "length t < cap"
  shows "scan_lines cap (t @ newline # c) = (case scan_lines cap c of (ls, err) \<Rightarrow> (dropCR t # ls, err))"
proof -
  have "takeWhile (\<lambda>c. c \<noteq> newline) (t @ newline # c) = t" "dropWhile (\<lambda>c. c \<noteq> newline) (t @ newline # c) = newline # c"
    using assms(1) by (auto simp: takeWhile_append dropWhile_append)
  then show ?thesis using assms(2) by (subst scan_lines.simps) simp
qed

lemma spill_events_Cons:
  assumes "spillable ev"
  shows "spill_events (spill_line ev @ c) = ev # spill_events c"
proof -
  let ?t = "json_text (InventoryEvent_json ev)"
  have cr: "dropCR ?t = ?t" using event_text_last [of ev] by (simp add: dropCR_def)
  have dec: "decode_event ?t = Some ev"
    using assms unfolding decode_event_def spillable_def by (intro event_wire.roundtrip) simp
  have "scan_lines maxSpillLineSize (?t @ newline # c) =
      (?t # fst (scan_lines maxSpillLineSize c), snd (scan_lines maxSpillLineSize c))"
    using assms scan_lines_line [of ?t maxSpillLineSize c] cr by (simp add: spillable_def split: prod.splits)
  then show ?thesis
    using dec event_text_last [of ev] by (simp add: spill_events_def spill_line_def List.map_filter_def)
qed

lemma spill_events_nil [simp]: "spill_events [] = []"
  by (simp add: spill_events_def scan_lines.simps List.map_filter_def)

lemma spill_events_lines: "list_all spillable evs \<Longrightarrow> spill_events (concat (map spill_line evs)) = evs"
  by (induction evs) (simp_all add: spill_events_Cons)

section \<open>The persisted number\<close>

lemma TrimSpace_digits: "\<forall>c \<in> set s. is_digit c \<Longrightarrow> TrimSpace s = s"
  by (rule TrimSpace_graphic) (auto simp: list_all_iff is_digit_def graphic_char_def)

lemma readSeq_persistSeq:
  assumes "0 \<le> up_seq u" "int64_ok (up_seq u)"
  shows "readSeq good_io (persistSeq good_io u d) = up_seq u"
proof -
  have "TrimSpace (FormatInt (up_seq u)) = FormatInt (up_seq u)"
    using assms dec_nat_digits by (intro TrimSpace_digits) (auto simp: FormatInt_def)
  then show ?thesis
    using assms by (simp add: readSeq_def persistSeq_def good_io_def written_def)
qed

end
