(* ===== verification/Upload_Run.thy ===== *)
theory Upload_Run
  imports Uploader "HOL-Library.Multiset"
begin

text \<open>
  The loop \<^verbatim>\<open>Uploader.Run\<close>, interleaved with \<^verbatim>\<open>Enqueue\<close> from the informers and with restarts of the process. One
  step of the loop is what it does up to the next point where an enqueued event can come in between:
  fetching the snapshot, sending one batch of it, taking a batch from the buffer, sending that batch.
  The abstract view of the component is a bag of pending events.
\<close>

section \<open>The loop\<close>

text \<open>Where the loop stands: at its head, inside \<^verbatim>\<open>sendSnapshot\<close> with the events still to send, or with a batch taken.\<close>

datatype run_pc = AtTop | InSnapshot "inventory_event list" | Sending "inventory_event list"

record up_sys =
  us_u :: uploader
  us_d :: disk
  us_pc :: run_pc
  us_backoff :: duration

text \<open>What a step shows: the events that came in, the requests and whether they were acknowledged.\<close>

datatype up_label =
    Enqueued inventory_event
  | Acked inventory_batch
  | Failed inventory_batch post_error
  | Internal
  | Restarted

text \<open>One step of \<^verbatim>\<open>Run\<close>: \<open>snap\<close> is what \<^verbatim>\<open>Snapshot\<close> returns now, \<open>send\<close> how the server answers.\<close>

definition run_step ::
  "inventory_event list \<Rightarrow> batch_sender \<Rightarrow> fs_io \<Rightarrow> up_sys \<Rightarrow> up_label \<times> up_sys" where
  "run_step snap send io s =
     (let u = us_u s; d = us_d s in
      case us_pc s of
        AtTop \<Rightarrow>
          if up_needSnapshot u then (Internal, s\<lparr>us_pc := InSnapshot snap\<rparr>)
          else (case up_take io batchSize (u, d) of (batch, u', d') \<Rightarrow>
            if batch = [] then (Internal, s\<lparr>us_u := u'\<lparr>up_notify := False\<rparr>, us_d := d'\<rparr>)
            else (Internal, s\<lparr>us_u := u', us_d := d', us_pc := Sending batch\<rparr>))
      | InSnapshot events \<Rightarrow>
          if events = [] then
            (Internal, s\<lparr>us_u := u\<lparr>up_needSnapshot := False\<rparr>, us_pc := AtTop, us_backoff := initialBackoff\<rparr>)
          else
            (let n = batchLen events batchSize (up_maxBatchBytes u); b = batch_of u (take n events) True in
             case sendBatch send io (take n events) True (u, d) of
               (Some e, u', d') \<Rightarrow>
                 (Failed b e, s\<lparr>us_u := u', us_d := d', us_pc := AtTop, us_backoff := next_backoff (us_backoff s)\<rparr>)
             | (None, u', d') \<Rightarrow> (Acked b, s\<lparr>us_u := u', us_d := d', us_pc := InSnapshot (drop n events)\<rparr>))
      | Sending batch \<Rightarrow>
          (let b = batch_of u batch False in
           case sendBatch send io batch False (u, d) of
             (Some e, u', d') \<Rightarrow>
               (Failed b e, s\<lparr>us_u := (requeueFront batch u')\<lparr>up_needSnapshot := True\<rparr>, us_d := d', us_pc := AtTop,
                  us_backoff := next_backoff (us_backoff s)\<rparr>)
           | (None, u', d') \<Rightarrow>
               (Acked b, s\<lparr>us_u := u', us_d := d', us_pc := AtTop, us_backoff := initialBackoff\<rparr>)))"

definition up_start :: "config \<Rightarrow> fs_io \<Rightarrow> disk \<Rightarrow> up_sys" where
  "up_start cfg io d = \<lparr>us_u = uploader_New cfg io d, us_d = d, us_pc = AtTop, us_backoff = initialBackoff\<rparr>"

text \<open>The steps of the component, with the file operations going as one of \<open>ios\<close>.\<close>

inductive up_step :: "config \<Rightarrow> fs_io set \<Rightarrow> up_sys \<Rightarrow> up_label \<Rightarrow> up_sys \<Rightarrow> bool"
  for cfg :: config and ios :: "fs_io set" where
  enqueue: "io \<in> ios \<Longrightarrow> Enqueue io ev (us_u s, us_d s) = (u', d') \<Longrightarrow>
    up_step cfg ios s (Enqueued ev) (s\<lparr>us_u := u', us_d := d'\<rparr>)"
| run: "io \<in> ios \<Longrightarrow> run_step snap send io s = (l, s') \<Longrightarrow> up_step cfg ios s l s'"
| restart: "io \<in> ios \<Longrightarrow> up_step cfg ios s Restarted (up_start cfg io (us_d s))"

inductive up_trace :: "config \<Rightarrow> fs_io set \<Rightarrow> up_sys \<Rightarrow> up_label list \<Rightarrow> up_sys \<Rightarrow> bool"
  for cfg :: config and ios :: "fs_io set" and s0 :: up_sys where
  nil: "up_trace cfg ios s0 [] s0"
| snoc: "up_trace cfg ios s0 ls s \<Longrightarrow> up_step cfg ios s l s' \<Longrightarrow> up_trace cfg ios s0 (ls @ [l]) s'"

inductive_cases up_stepE [elim]: "up_step cfg ios s l s'"

section \<open>The bag of pending events\<close>

text \<open>
  The specification: an enqueued event is pending until a batch with it is acknowledged; a restart may forget
  pending events (those in memory), never invent any. Snapshot batches do not touch the bag.
\<close>

inductive bag_step :: "inventory_event multiset \<Rightarrow> up_label \<Rightarrow> inventory_event multiset \<Rightarrow> bool" where
  bag_enqueue: "bag_step p (Enqueued ev) (add_mset ev p)"
| bag_ack: "\<not> ib_Full b \<Longrightarrow> mset (ib_Events b) \<subseteq># p \<Longrightarrow> bag_step p (Acked b) (p - mset (ib_Events b))"
| bag_ack_full: "ib_Full b \<Longrightarrow> bag_step p (Acked b) p"
| bag_failed: "bag_step p (Failed b e) p"
| bag_internal: "bag_step p Internal p"
| bag_restart: "q \<subseteq># p \<Longrightarrow> bag_step p Restarted q"

inductive bag_trace :: "inventory_event multiset \<Rightarrow> up_label list \<Rightarrow> inventory_event multiset \<Rightarrow> bool"
  for p0 where
  bag_nil: "bag_trace p0 [] p0"
| bag_snoc: "bag_trace p0 ls p \<Longrightarrow> bag_step p l p' \<Longrightarrow> bag_trace p0 (ls @ [l]) p'"

definition in_flight :: "run_pc \<Rightarrow> inventory_event list" where
  "in_flight pc = (case pc of Sending batch \<Rightarrow> batch | _ \<Rightarrow> [])"

definition spilled :: "disk \<Rightarrow> inventory_event list" where
  "spilled d = (case dk_spill d of None \<Rightarrow> [] | Some c \<Rightarrow> spill_events c)"

definition pending :: "up_sys \<Rightarrow> inventory_event multiset" where
  "pending s = mset (in_flight (us_pc s)) + (mset (up_buf (us_u s)) + mset (spilled (us_d s)))"

text \<open>The spill file holds whole lines of spillable events.\<close>

definition spill_ok :: "disk \<Rightarrow> bool" where
  "spill_ok d \<longleftrightarrow> (case dk_spill d of None \<Rightarrow> True
     | Some c \<Rightarrow> \<exists>evs. list_all spillable evs \<and> c = concat (map spill_line evs))"

lemma spill_okE:
  assumes "spill_ok d"
  obtains evs where "list_all spillable evs" "spilled d = evs"
    "dk_spill d = None \<and> evs = [] \<or> dk_spill d = Some (concat (map spill_line evs))"
  using assms by (auto simp: spill_ok_def spilled_def spill_events_lines split: option.splits)

lemma spillLocked_good:
  assumes "spill_ok d" "spillable ev" "spillLocked good_io ev (u, d) = (u', d')"
  shows "spill_ok d' \<and> spilled d' = spilled d @ [ev] \<and> up_buf u' = up_buf u"
proof -
  obtain evs where evs: "list_all spillable evs" "spilled d = evs"
    "dk_spill d = None \<and> evs = [] \<or> dk_spill d = Some (concat (map spill_line evs))"
    using spill_okE [OF assms(1)] .
  then have d': "dk_spill d' = Some (concat (map spill_line (evs @ [ev])))" "up_buf u' = up_buf u"
    using assms(3) by (auto simp: spillLocked_def good_io_def written_def Let_def)
  moreover have "spilled d' = evs @ [ev]"
    using d'(1) evs(1) assms(2) spill_events_lines [of "evs @ [ev]"] by (simp add: spilled_def)
  ultimately show ?thesis
    using evs(1,2) assms(2) unfolding spill_ok_def by (auto intro!: exI [of _ "evs @ [ev]"])
qed

lemma Enqueue_good:
  assumes "spill_ok d" "spillable ev" "Enqueue good_io ev (u, d) = (u', d')"
  shows "spill_ok d' \<and> mset (up_buf u') + mset (spilled d') = add_mset ev (mset (up_buf u) + mset (spilled d))"
proof (cases "length (up_buf u) < up_capacity u")
  case False
  obtain u1 where u1: "spillLocked good_io ev (u, d) = (u1, d')" "u' = signal u1"
    using assms(3) False by (auto simp: Enqueue_def split: prod.splits)
  then show ?thesis using spillLocked_good [OF assms(1,2) u1(1)] by (simp add: signal_def)
qed (use assms in \<open>auto simp: Enqueue_def Let_def signal_def\<close>)

lemma replay_good:
  assumes "spill_ok d" "up_buf u = []" "replaySpillLocked good_io (u, d) = (u', d')"
  shows "spill_ok d' \<and> up_buf u' = spilled d \<and> spilled d' = []"
proof -
  obtain evs where "list_all spillable evs" "spilled d = evs"
    "dk_spill d = None \<and> evs = [] \<or> dk_spill d = Some (concat (map spill_line evs))"
    using spill_okE [OF assms(1)] .
  then show ?thesis
    using assms spill_events_lines [of evs]
    by (cases "evs = []")
       (auto simp: replaySpillLocked_def spilled_def spill_ok_def good_io_def read_part_def Let_def)
qed

lemma up_take_good:
  assumes "spill_ok d" "up_take good_io n (u, d) = (batch, u', d')"
  shows "spill_ok d' \<and> mset batch + (mset (up_buf u') + mset (spilled d')) = mset (up_buf u) + mset (spilled d) \<and>
    (batch = [] \<longrightarrow> up_buf u' = [] \<and> spilled d' = []) \<and> up_needSnapshot u' = up_needSnapshot u"
proof -
  obtain u1 d1 where s1: "(if up_buf u = [] then replaySpillLocked good_io (u, d) else (u, d)) = (u1, d1)"
    by fastforce
  have keep: "spill_ok d1 \<and> mset (up_buf u1) + mset (spilled d1) = mset (up_buf u) + mset (spilled d) \<and>
      (up_buf u1 = [] \<longrightarrow> spilled d1 = []) \<and> up_needSnapshot u1 = up_needSnapshot u"
  proof (cases "up_buf u = []")
    case True
    moreover have "up_needSnapshot u1 = up_needSnapshot u"
      using True s1 by (auto simp: replaySpillLocked_def Let_def split: option.splits if_splits)
    ultimately show ?thesis using s1 replay_good [OF assms(1) True, of u1 d1] by auto
  qed (use s1 assms(1) in auto)
  have parts: "mset (take k xs) + (mset (drop k xs) + m) = mset xs + m" for k m and xs :: "inventory_event list"
    by (metis add.assoc append_take_drop_id mset_append)
  from parts [of _ _ "{#}"] show ?thesis
    using assms(2) s1 keep by (auto simp: up_take_def Let_def parts split: if_splits)
qed

lemma sendBatch_good:
  assumes "sendBatch send io events full (u, d) = (err, u', d')"
  shows "up_buf u' = up_buf u \<and> dk_spill d' = dk_spill d \<and> up_needSnapshot u' = up_needSnapshot u"
  using assms by (auto simp: sendBatch_def persistSeq_def Let_def split: sum.splits if_splits)

lemma spilled_cong: "dk_spill d' = dk_spill d \<Longrightarrow> spilled d' = spilled d \<and> (spill_ok d' \<longleftrightarrow> spill_ok d)"
  by (simp add: spilled_def spill_ok_def)

section \<open>Refinement of the bag\<close>

lemma run_top_refines:
  assumes "spill_ok (us_d s)" "us_pc s = AtTop" "run_step snap send good_io s = (l, s')"
  shows "spill_ok (us_d s') \<and> l = Internal \<and> pending s' = pending s"
proof (cases "up_needSnapshot (us_u s)")
  case False
  obtain batch u' d' where t: "up_take good_io batchSize (us_u s, us_d s) = (batch, u', d')"
    by (metis prod_cases3)
  show ?thesis
    using assms(2,3) False t up_take_good [OF assms(1) t]
    by (cases "batch = []") (auto simp: run_step_def pending_def in_flight_def)
qed (use assms in \<open>auto simp: run_step_def pending_def in_flight_def\<close>)

lemma run_snapshot_refines:
  assumes "spill_ok (us_d s)" "us_pc s = InSnapshot events" "run_step snap send good_io s = (l, s')"
  shows "spill_ok (us_d s') \<and> pending s' = pending s \<and> (l = Internal \<or> (\<exists>b e. l = Failed b e) \<or> (\<exists>b. l = Acked b \<and> ib_Full b))"
proof (cases "events = []")
  case False
  let ?es = "take (batchLen events batchSize (up_maxBatchBytes (us_u s))) events"
  obtain err u' d' where t: "sendBatch send good_io ?es True (us_u s, us_d s) = (err, u', d')"
    by (metis prod_cases3)
  have "spilled d' = spilled (us_d s)" "spill_ok d'" "up_buf u' = up_buf (us_u s)"
    using sendBatch_good [OF t] spilled_cong assms(1) by blast+
  then show ?thesis
    using assms(2,3) False t
    by (cases err) (auto simp: run_step_def Let_def pending_def in_flight_def batch_of_def)
qed (use assms in \<open>auto simp: run_step_def pending_def in_flight_def\<close>)

lemma run_sending_refines:
  assumes "spill_ok (us_d s)" "us_pc s = Sending batch" "run_step snap send good_io s = (l, s')"
  shows "spill_ok (us_d s') \<and>
    ((\<exists>b e. l = Failed b e) \<and> pending s' = pending s \<or>
     (\<exists>b. l = Acked b \<and> \<not> ib_Full b \<and> ib_Events b = batch \<and> pending s = mset batch + pending s'))"
proof -
  obtain err u' d' where t: "sendBatch send good_io batch False (us_u s, us_d s) = (err, u', d')"
    by (metis prod_cases3)
  have "spilled d' = spilled (us_d s)" "spill_ok d'" "up_buf u' = up_buf (us_u s)"
    using sendBatch_good [OF t] spilled_cong assms(1) by blast+
  then show ?thesis
    using assms(2,3) t
    by (cases err) (auto simp: run_step_def Let_def pending_def in_flight_def batch_of_def requeueFront_def signal_def)
qed

lemma run_step_refines:
  assumes "spill_ok (us_d s)" "run_step snap send good_io s = (l, s')"
  shows "spill_ok (us_d s') \<and> bag_step (pending s) l (pending s')"
proof (cases "us_pc s")
  case AtTop
  then show ?thesis using run_top_refines [OF assms(1) _ assms(2)] by (auto intro: bag_internal)
next
  case (InSnapshot events)
  then show ?thesis
    using run_snapshot_refines [OF assms(1) _ assms(2)] by (auto intro: bag_step.intros)
next
  case (Sending batch)
  then show ?thesis
    using run_sending_refines [OF assms(1) _ assms(2)] bag_ack [of _ "pending s"] by (fastforce intro: bag_failed)
qed

lemma up_step_refines:
  assumes "up_step cfg {good_io} s l s'" "spill_ok (us_d s)" "\<And>ev. l = Enqueued ev \<Longrightarrow> spillable ev"
  shows "spill_ok (us_d s') \<and> bag_step (pending s) l (pending s')"
  using assms(1)
proof cases
  case (enqueue io ev u' d')
  then show ?thesis
    using Enqueue_good [OF assms(2), of ev "us_u s" u' d'] assms(3)
      bag_enqueue [of "pending s" ev] by (simp add: pending_def)
next
  case (run io snap send)
  then show ?thesis using run_step_refines [OF assms(2)] by simp
next
  case (restart io)
  then show ?thesis
    using assms(2) by (auto simp: up_start_def uploader_New_def NewWithCapacity_def pending_def in_flight_def
        intro!: bag_restart)
qed

lemma up_trace_refines:
  assumes "up_trace cfg {good_io} s0 ls s" "spill_ok (us_d s0)" "\<And>ev. Enqueued ev \<in> set ls \<Longrightarrow> spillable ev"
  shows "spill_ok (us_d s) \<and> bag_trace (pending s0) ls (pending s)"
  using assms
proof (induction rule: up_trace.induct)
  case (snoc ls s l s')
  then have "spill_ok (us_d s) \<and> bag_trace (pending s0) ls (pending s)" by simp
  then show ?case using up_step_refines [OF snoc.hyps(2)] snoc.prems(2) by (auto intro: bag_snoc)
qed (auto intro: bag_nil)

section \<open>Consequences for a trace\<close>

definition enqueued :: "up_label list \<Rightarrow> inventory_event list" where
  "enqueued ls = List.map_filter (\<lambda>l. case l of Enqueued ev \<Rightarrow> Some ev | _ \<Rightarrow> None) ls"

definition acked :: "up_label list \<Rightarrow> inventory_batch list" where
  "acked ls = List.map_filter (\<lambda>l. case l of Acked b \<Rightarrow> Some b | _ \<Rightarrow> None) ls"

definition delivered :: "up_label list \<Rightarrow> inventory_event list" where
  "delivered ls = concat (map ib_Events (filter (\<lambda>b. \<not> ib_Full b) (acked ls)))"

lemma labels_snoc [simp]:
  "enqueued (ls @ [l]) = enqueued ls @ (case l of Enqueued ev \<Rightarrow> [ev] | _ \<Rightarrow> [])"
  "acked (ls @ [l]) = acked ls @ (case l of Acked b \<Rightarrow> [b] | _ \<Rightarrow> [])"
  "delivered (ls @ [l]) = delivered ls @ (case l of Acked b \<Rightarrow> if ib_Full b then [] else ib_Events b | _ \<Rightarrow> [])"
  by (cases l; simp add: enqueued_def acked_def delivered_def List.map_filter_def)+

lemma labels_nil [simp]: "enqueued [] = []" "acked [] = []" "delivered [] = []"
  by (simp_all add: enqueued_def acked_def delivered_def List.map_filter_def)

lemma bag_trace_balance:
  "bag_trace p0 ls p \<Longrightarrow> Restarted \<notin> set ls \<Longrightarrow> p0 + mset (enqueued ls) = mset (delivered ls) + p"
proof (induction rule: bag_trace.induct)
  case (bag_snoc ls p l p')
  then have IH: "p0 + mset (enqueued ls) = mset (delivered ls) + p" by simp
  from bag_snoc.hyps(2) show ?case
  proof cases
    case (bag_ack b)
    then have "p = mset (ib_Events b) + p'" by simp
    then show ?thesis using IH bag_ack by (simp add: add.assoc)
  qed (use IH bag_snoc.prems in auto)
qed simp

lemma up_start_pending [simp]: "pending (up_start cfg io d) = mset (spilled d)" "us_d (up_start cfg io d) = d"
  by (simp_all add: up_start_def uploader_New_def NewWithCapacity_def pending_def in_flight_def)

section \<open>Sequence numbers\<close>

lemma readSeq_range: "0 \<le> readSeq io d \<and> int64_ok (readSeq io d)"
  by (auto simp: readSeq_def ParseInt_def Let_def int64_ok_def split: option.splits if_splits)

lemma Enqueue_seq:
  "Enqueue io ev (u, d) = (u', d') \<Longrightarrow> up_seq u' = up_seq u \<and> dk_seq d' = dk_seq d"
  by (auto simp: Enqueue_def spillLocked_def signal_def Let_def split: if_splits)

lemma up_take_seq:
  "up_take io n (u, d) = (b, u', d') \<Longrightarrow> up_seq u' = up_seq u \<and> dk_seq d' = dk_seq d"
  by (auto simp: up_take_def replaySpillLocked_def Let_def split: if_splits option.splits)

lemma sendBatch_seq:
  assumes "sendBatch send good_io events full (u, d) = (err, u', d')" "0 \<le> up_seq u" "up_seq u + 1 < 2 ^ 63"
  shows "case err of Some _ \<Rightarrow> up_seq u' = up_seq u \<and> d' = d
    | None \<Rightarrow> up_seq u' = up_seq u + 1 \<and> readSeq good_io d' = up_seq u' \<and> ib_Seq (batch_of u events full) = up_seq u'"
proof (cases "send (batch_of u events full)")
  case (Inr ack)
  let ?u = "u\<lparr>up_seq := up_seq u + 1\<rparr>"
  have w: "wrap64 (up_seq u + 1) = up_seq u + 1" "int64_ok (up_seq u + 1)"
    using assms(2,3) by (simp_all add: int64_ok_def)
  then have "err = None" "up_seq u' = up_seq ?u" "d' = persistSeq good_io ?u d"
    using assms(1) Inr by (auto simp: sendBatch_def batch_of_def Let_def)
  then show ?thesis
    using readSeq_persistSeq [of ?u d] assms(2) w by (simp add: batch_of_def)
qed (use assms in \<open>auto simp: sendBatch_def\<close>)

text \<open>The number in memory is the number on disk.\<close>

definition seq_synced :: "up_sys \<Rightarrow> bool" where
  "seq_synced s \<longleftrightarrow> 0 \<le> up_seq (us_u s) \<and> readSeq good_io (us_d s) = up_seq (us_u s)"

lemma readSeq_cong: "dk_seq d' = dk_seq d \<Longrightarrow> readSeq io d' = readSeq io d"
  by (simp add: readSeq_def)

definition seq_after :: "up_sys \<Rightarrow> up_label \<Rightarrow> up_sys \<Rightarrow> bool" where
  "seq_after s l s' \<longleftrightarrow> seq_synced s' \<and>
     (case l of Acked b \<Rightarrow> ib_Seq b = up_seq (us_u s) + 1 \<and> up_seq (us_u s') = up_seq (us_u s) + 1
      | _ \<Rightarrow> up_seq (us_u s') = up_seq (us_u s))"

lemma run_step_seq:
  assumes "seq_synced s" "up_seq (us_u s) + 1 < 2 ^ 63" "run_step snap send good_io s = (l, s')"
  shows "seq_after s l s'"
proof (cases "us_pc s")
  case AtTop
  obtain batch u' d' where t: "up_take good_io batchSize (us_u s, us_d s) = (batch, u', d')"
    by (metis prod_cases3)
  have "readSeq good_io d' = readSeq good_io (us_d s)" "up_seq u' = up_seq (us_u s)"
    using up_take_seq [OF t] readSeq_cong by blast+
  then show ?thesis
    using assms AtTop t by (auto simp: run_step_def Let_def seq_after_def seq_synced_def split: if_splits)
next
  case (InSnapshot events)
  let ?es = "take (batchLen events batchSize (up_maxBatchBytes (us_u s))) events"
  obtain err u' d' where t: "sendBatch send good_io ?es True (us_u s, us_d s) = (err, u', d')"
    by (metis prod_cases3)
  show ?thesis
    using assms InSnapshot t sendBatch_seq [OF t]
    by (cases err) (auto simp: run_step_def Let_def seq_after_def seq_synced_def split: if_splits)
next
  case (Sending batch)
  obtain err u' d' where t: "sendBatch send good_io batch False (us_u s, us_d s) = (err, u', d')"
    by (metis prod_cases3)
  show ?thesis
    using assms Sending t sendBatch_seq [OF t]
    by (cases err) (auto simp: run_step_def Let_def seq_after_def seq_synced_def requeueFront_def signal_def)
qed

lemma up_step_seq:
  assumes "up_step cfg {good_io} s l s'" "seq_synced s" "up_seq (us_u s) + 1 < 2 ^ 63"
  shows "seq_after s l s'"
  using assms(1)
proof cases
  case (enqueue io ev u' d')
  then show ?thesis
    using Enqueue_seq [of good_io ev "us_u s" "us_d s" u' d'] readSeq_cong [of d' "us_d s" good_io] assms(2)
    by (simp add: seq_after_def seq_synced_def)
next
  case (run io snap send)
  then show ?thesis using run_step_seq [OF assms(2,3)] by simp
next
  case (restart io)
  then show ?thesis
    using assms(2)
    by (simp add: seq_after_def seq_synced_def up_start_def uploader_New_def NewWithCapacity_def readSeq_range)
qed

lemma up_trace_seq:
  assumes "up_trace cfg {good_io} s0 ls s" "seq_synced s0" "up_seq (us_u s0) + int (length (acked ls)) + 1 < 2 ^ 63"
  shows "seq_synced s \<and> up_seq (us_u s) = up_seq (us_u s0) + int (length (acked ls)) \<and>
    map ib_Seq (acked ls) = map (\<lambda>i. up_seq (us_u s0) + 1 + int i) [0..<length (acked ls)]"
  using assms
proof (induction rule: up_trace.induct)
  case (snoc ls s l s')
  have "length (acked ls) \<le> length (acked (ls @ [l]))" by simp
  then have IH: "seq_synced s" "up_seq (us_u s) = up_seq (us_u s0) + int (length (acked ls))"
      "map ib_Seq (acked ls) = map (\<lambda>i. up_seq (us_u s0) + 1 + int i) [0..<length (acked ls)]"
    using snoc by (simp_all del: labels_snoc)
  then have "seq_after s l s'"
    using snoc by (intro up_step_seq [OF snoc.hyps(2)]) (simp_all split: up_label.splits)
  then show ?case using IH by (auto simp: seq_after_def split: up_label.splits)
qed simp

section \<open>Draining\<close>

text \<open>What is left to do when the server takes every batch.\<close>

definition drain_work :: "inventory_event list \<Rightarrow> up_sys \<Rightarrow> nat" where
  "drain_work snap s =
     (case us_pc s of
        AtTop \<Rightarrow> 2 * size (pending s) + (if up_needSnapshot (us_u s) then length snap + 2 else 0)
      | InSnapshot events \<Rightarrow> 2 * size (pending s) + length events + 1
      | Sending batch \<Rightarrow> 2 * size (pending s) - 1)"

definition drained :: "up_sys \<Rightarrow> bool" where
  "drained s \<longleftrightarrow> us_pc s = AtTop \<and> \<not> up_needSnapshot (us_u s) \<and> pending s = {#}"

definition drain_inv :: "up_sys \<Rightarrow> bool" where
  "drain_inv s \<longleftrightarrow> spill_ok (us_d s) \<and>
     (case us_pc s of Sending batch \<Rightarrow> batch \<noteq> [] \<and> \<not> up_needSnapshot (us_u s) | _ \<Rightarrow> True)"

lemma drain_top:
  assumes "spill_ok (us_d s)" "us_pc s = AtTop" "\<not> drained s" "run_step snap send good_io s = (l, s')"
  shows "drain_inv s' \<and> drain_work snap s' < drain_work snap s"
proof (cases "up_needSnapshot (us_u s)")
  case True
  then show ?thesis
    using assms by (auto simp: run_step_def drain_inv_def drain_work_def pending_def in_flight_def)
next
  case False
  obtain batch u' d' where t: "up_take good_io batchSize (us_u s, us_d s) = (batch, u', d')"
    by (metis prod_cases3)
  have ne: "pending s \<noteq> {#}" using assms(2,3) False by (simp add: drained_def)
  then have b: "batch \<noteq> []"
    using up_take_good [OF assms(1) t] assms(2) by (auto simp: pending_def in_flight_def)
  then have s': "s' = s\<lparr>us_u := u', us_d := d', us_pc := Sending batch\<rparr>"
    using assms(2,4) False t by (simp add: run_step_def)
  moreover have "pending s' = pending s"
    using run_top_refines [OF assms(1,2,4)] by blast
  moreover have "0 < size (pending s)" using ne by (simp add: nonempty_has_size)
  ultimately show ?thesis
    using up_take_good [OF assms(1) t] False b assms(2) by (simp add: drain_inv_def drain_work_def)
qed

lemma drain_step:
  assumes "drain_inv s" "\<not> drained s" "\<And>b. \<exists>ack. send b = Inr ack" "run_step snap send good_io s = (l, s')"
  shows "drain_inv s' \<and> drain_work snap s' < drain_work snap s"
proof (cases "us_pc s")
  case AtTop
  then show ?thesis using drain_top assms by (simp add: drain_inv_def)
next
  case (InSnapshot events)
  then have ok: "spill_ok (us_d s)" using assms(1) by (simp add: drain_inv_def)
  have keep: "spill_ok (us_d s')" "pending s' = pending s"
    using run_snapshot_refines [OF ok InSnapshot assms(4)] by blast+
  show ?thesis
  proof (cases "events = []")
    case True
    then show ?thesis
      using keep InSnapshot assms(4) by (auto simp: run_step_def drain_inv_def drain_work_def)
  next
    case False
    let ?n = "batchLen events batchSize (up_maxBatchBytes (us_u s))"
    obtain ack where "send (batch_of (us_u s) (take ?n events) True) = Inr ack" using assms(3) by blast
    then have "us_pc s' = InSnapshot (drop ?n events)"
      using False InSnapshot assms(4) by (auto simp: run_step_def sendBatch_def Let_def)
    moreover have "0 < ?n" using False by simp
    ultimately show ?thesis
      using keep InSnapshot False by (cases events) (auto simp: drain_inv_def drain_work_def)
  qed
next
  case (Sending batch)
  then have ok: "spill_ok (us_d s)" "batch \<noteq> []" "\<not> up_needSnapshot (us_u s)"
    using assms(1) by (simp_all add: drain_inv_def)
  obtain ack where "send (batch_of (us_u s) batch False) = Inr ack" using assms(3) by blast
  then have s': "us_pc s' = AtTop" "\<not> up_needSnapshot (us_u s')" "l = Acked (batch_of (us_u s) batch False)"
    using Sending assms(4) ok(3) by (auto simp: run_step_def sendBatch_def Let_def)
  then have "spill_ok (us_d s')" "pending s = mset batch + pending s'"
    using run_sending_refines [OF ok(1) Sending assms(4)] by auto
  then show ?thesis
    using s' Sending ok(2) by (cases batch) (simp_all add: drain_inv_def drain_work_def)
qed

lemma drains:
  assumes "drain_inv s" "\<And>b. \<exists>ack. send b = Inr ack"
  shows "\<exists>n \<le> drain_work snap s. drained (((\<lambda>s. snd (run_step snap send good_io s)) ^^ n) s)"
  using assms(1)
proof (induction "drain_work snap s" arbitrary: s rule: less_induct)
  case less
  show ?case
  proof (cases "drained s")
    case True
    then show ?thesis by (intro exI [of _ 0]) simp
  next
    case False
    let ?f = "\<lambda>s. snd (run_step snap send good_io s)"
    have "run_step snap send good_io s = (fst (run_step snap send good_io s), ?f s)" by simp
    from drain_step [OF less.prems False assms(2) this]
    have st: "drain_inv (?f s) \<and> drain_work snap (?f s) < drain_work snap s" .
    then obtain n where "n \<le> drain_work snap (?f s)" "drained ((?f ^^ n) (?f s))"
      using less.hyps by blast
    then show ?thesis
      using st by (intro exI [of _ "Suc n"]) (simp add: funpow_Suc_right del: funpow.simps)
  qed
qed

section \<open>A scripted run\<close>

text \<open>
  A run against a server that takes every batch, with no objects in the cache: \<open>Some ev\<close> enqueues an
  event, \<open>None\<close> lets the loop make one step.
\<close>

fun play :: "inventory_event option list \<Rightarrow> up_label list \<times> up_sys \<Rightarrow> up_label list \<times> up_sys" where
  "play [] r = r"
| "play (Some ev # xs) (ls, s) =
     (case Enqueue good_io ev (us_u s, us_d s) of (u, d) \<Rightarrow> play xs (ls @ [Enqueued ev], s\<lparr>us_u := u, us_d := d\<rparr>))"
| "play (None # xs) (ls, s) =
     (case run_step [] (\<lambda>b. Inr zero_ack) good_io s of (l, s') \<Rightarrow> play xs (ls @ [l], s'))"

lemma play_trace:
  "up_trace cfg {good_io} s0 (fst r) (snd r) \<Longrightarrow> up_trace cfg {good_io} s0 (fst (play xs r)) (snd (play xs r))"
proof (induction xs r rule: play.induct)
  case (2 ev xs ls s)
  obtain u d where u: "Enqueue good_io ev (us_u s, us_d s) = (u, d)" by fastforce
  then have "up_trace cfg {good_io} s0 (ls @ [Enqueued ev]) (s\<lparr>us_u := u, us_d := d\<rparr>)"
    using 2 by (auto intro: up_trace.snoc up_step.enqueue)
  then show ?case using 2 u by simp
next
  case (3 xs ls s)
  obtain l s' where r: "run_step [] (\<lambda>b. Inr zero_ack) good_io s = (l, s')" by fastforce
  then have "up_trace cfg {good_io} s0 (ls @ [l]) s'"
    using 3 by (auto intro: up_trace.snoc up_step.run)
  then show ?case using 3 r by simp
qed simp

definition demo_event :: inventory_event where
  "demo_event =
     \<lparr>ev_Op = OpAdd, ev_Ref = \<lparr>rr_Group = ''apps'', rr_Version = ''v1'', rr_Resource = ''deployments'',
        rr_Namespace = ''default'', rr_Name = ''web''\<rparr>, ev_ObjectJSON = ''{}'', ev_Timestamp = 17\<rparr>"

definition demo_disk :: disk where
  "demo_disk = \<lparr>dk_spill = None, dk_seq = Some ''41''\<rparr>"

definition demo_start :: up_sys where
  "demo_start = up_start demo_config good_io demo_disk"

definition demo_play :: "up_label list \<times> up_sys" where
  "demo_play = play [None, None, Some demo_event, None, None] ([], demo_start)"

lemma demo_trace: "up_trace demo_config {good_io} demo_start (fst demo_play) (snd demo_play)"
  unfolding demo_play_def by (rule play_trace) (simp add: up_trace.nil)

lemma readSeq_demo [simp]: "readSeq good_io demo_disk = 41"
proof -
  have "TrimSpace ''41'' = ''41''" by (rule TrimSpace_digits) (simp add: is_digit_def)
  moreover have "ParseInt ''41'' = Some 41"
    by (simp add: ParseInt_def dec_val_def digit_val_def is_digit_def int64_ok_def)
  ultimately show ?thesis by (simp add: readSeq_def demo_disk_def good_io_def)
qed

lemma demo_event_ok: "event_ok demo_event"
  by (simp add: event_ok_def ref_ok_def demo_event_def int64_ok_def utf8_valid_ascii)

lemma demo_spillable: "spillable demo_event"
proof -
  have "base64_EncodeToString ''{}'' = ''e30=''" by code_simp
  then have "length (json_text (InventoryEvent_json demo_event)) < 300"
    by (simp add: InventoryEvent_json_def ResourceRef_json_def demo_event_def wire_defs json_members_def json_quote_def
        json_escape_plain esc_ascii_def FormatInt_def dec_nat.simps)
  then show ?thesis using demo_event_ok by (simp add: spillable_def)
qed

lemma demo_disk_spill [simp]: "dk_spill demo_disk = None"
  by (simp add: demo_disk_def)

lemma demo_play_eq:
  "fst demo_play = [Internal, Internal, Enqueued demo_event, Internal,
     Acked \<lparr>ib_ClusterID = '''', ib_Seq = 42, ib_Full = False, ib_Events = [demo_event]\<rparr>]"
  by (simp add: demo_play_def demo_start_def up_start_def uploader_New_def NewWithCapacity_def run_step_def
      Enqueue_def signal_def up_take_def replaySpillLocked_def sendBatch_def batch_of_def
      wrap64_def Let_def)

section \<open>Properties\<close>

text \<open>
  C5. The uploader refines a bag of pending events, over every interleaving of the loop, of enqueued events
  and of restarts: an event is in memory, in flight or in the spill file from the time it is enqueued until
  a batch with it is acknowledged, whatever fails on the way, and only a restart loses events (those in
  memory). So, without a restart, what was pending at the start and what was enqueued is exactly what was
  delivered and what is still pending. The file operations succeed, the spill file was left by the
  uploader itself, and the events are such that one line of the file can hold them.
\<close>

theorem upload_refines_bag:
  assumes "up_trace cfg {good_io} (up_start cfg good_io d0) ls s" "spill_ok d0"
    and "\<And>ev. Enqueued ev \<in> set ls \<Longrightarrow> spillable ev"
  shows "bag_trace (mset (spilled d0)) ls (pending s) \<and>
    (Restarted \<notin> set ls \<longrightarrow> mset (spilled d0) + mset (enqueued ls) = mset (delivered ls) + pending s)"
  using up_trace_refines [OF assms(1)] bag_trace_balance assms(2,3) by auto

theorem upload_refines_bag_witness:
  "mset (delivered (fst demo_play)) + pending (snd demo_play) = {#demo_event#} \<and>
   bag_trace {#} (fst demo_play) (pending (snd demo_play))"
proof -
  have t: "up_trace demo_config {good_io} (up_start demo_config good_io demo_disk) (fst demo_play) (snd demo_play)"
    using demo_trace by (simp add: demo_start_def)
  have ok: "spill_ok demo_disk" "spilled demo_disk = []" by (simp_all add: spill_ok_def spilled_def)
  have sp: "spillable ev" if "Enqueued ev \<in> set (fst demo_play)" for ev
    using that demo_spillable by (simp add: demo_play_eq)
  have "enqueued (fst demo_play) = [demo_event]" "Restarted \<notin> set (fst demo_play)"
    by (simp_all add: demo_play_eq enqueued_def List.map_filter_def)
  then show ?thesis
    using upload_refines_bag [OF t ok(1) sp] ok(2) by simp
qed

text \<open>
  C15. The sequence numbers of the acknowledged batches, snapshots and deltas alike, are consecutive, starting
  after the number found on disk, and the number on disk at any time is that of the last acknowledged batch;
  this holds across restarts, because the number is written with every acknowledgement and read at
  startup. (File operations succeed, and the numbers stay below the largest 64-bit integer.)
\<close>

theorem upload_seq_consecutive:
  assumes "up_trace cfg {good_io} (up_start cfg good_io d0) ls s"
    and "readSeq good_io d0 + int (length (acked ls)) + 1 < 2 ^ 63"
  shows "map ib_Seq (acked ls) = map (\<lambda>i. readSeq good_io d0 + 1 + int i) [0..<length (acked ls)] \<and>
    readSeq good_io (us_d s) = readSeq good_io d0 + int (length (acked ls))"
proof -
  have "up_seq (us_u (up_start cfg good_io d0)) = readSeq good_io d0"
    by (simp add: up_start_def uploader_New_def NewWithCapacity_def)
  moreover from this have "seq_synced (up_start cfg good_io d0)" by (simp add: seq_synced_def readSeq_range)
  ultimately show ?thesis using up_trace_seq [OF assms(1)] assms(2) by (simp add: seq_synced_def)
qed

theorem upload_seq_consecutive_witness:
  "map ib_Seq (acked (fst demo_play)) = [42] \<and> readSeq good_io (us_d (snd demo_play)) = 42"
proof -
  have t: "up_trace demo_config {good_io} (up_start demo_config good_io demo_disk) (fst demo_play) (snd demo_play)"
    using demo_trace by (simp add: demo_start_def)
  have "length (acked (fst demo_play)) = 1" by (simp add: demo_play_eq acked_def List.map_filter_def)
  then show ?thesis using upload_seq_consecutive [OF t] by simp
qed



text \<open>
  C37. A batch respects its budget and wastes none of it: it holds at least one event and at most the allowed
  number, its estimated size is within the byte limit unless it is a single event, and one more event
  would have broken one of the two limits.
\<close>

theorem batchLen_budget:
  assumes "events \<noteq> []" "0 < maxEvents"
  shows "let k = batchLen events maxEvents maxBytes in
    1 \<le> k \<and> k \<le> length events \<and> k \<le> maxEvents \<and>
    (total_size (take k events) \<le> maxBytes \<or> k = 1) \<and>
    (k < length events \<and> k < maxEvents \<longrightarrow> maxBytes < total_size (take (Suc k) events))"
proof -
  obtain e es where es: "events = e # es" using assms(1) by (cases events) auto
  define m where "m = batch_more (min maxEvents (length events) - 1) (eventSize e) maxBytes es"
  have k: "batchLen events maxEvents maxBytes = Suc m" using es by (simp add: m_def)
  have bound: "m \<le> min maxEvents (length events) - 1" "m \<le> length es"
    using batch_more_bound unfolding m_def by blast+
  have "total_size (take (Suc m) events) \<le> maxBytes \<or> m = 0"
  proof (cases "eventSize e \<le> maxBytes")
    case True
    then show ?thesis using batch_more_budget es by (simp add: total_size_def m_def)
  next
    case False
    then show ?thesis by (simp add: m_def batch_more_zero)
  qed
  moreover have "maxBytes < total_size (take (Suc (Suc m)) events)" if "Suc m < length events" "Suc m < maxEvents"
  proof -
    have "m < min (min maxEvents (length events) - 1) (length es)" using that es by simp
    from batch_more_maximal [OF this [unfolded m_def]] show ?thesis by (simp add: es total_size_def m_def)
  qed
  moreover have "Suc m \<le> length events" "Suc m \<le> maxEvents" using bound assms(2) es by simp_all
  ultimately show ?thesis unfolding k Let_def by simp
qed

theorem batchLen_budget_witness:
  "batchLen [demo_event, demo_event, demo_event] 200 600 = 2 \<and>
   600 < total_size (take 3 [demo_event, demo_event, demo_event])"
proof -
  have "batchLen [demo_event, demo_event, demo_event] 200 600 = 2"
    by (simp add: eventSize_def demo_event_def numeral_2_eq_2)
  then show ?thesis
    using batchLen_budget [of "[demo_event, demo_event, demo_event]" 200 600] by (simp add: Let_def numeral_3_eq_3 numeral_2_eq_2)
qed



text \<open>
  C39. Events can overtake each other: when the buffer is full, an event goes to the spill file, and an event
  enqueued after the next batch was taken goes to the buffer again. The file is read only when the
  buffer has run empty, so the later event is sent first, and a server that keeps the last write of an
  object ends up with the older state.
\<close>

theorem spilled_event_overtaken:
  assumes "up_buf u \<noteq> []" "up_capacity u = length (up_buf u)" "spilled d = []" "spill_ok d" "spillable e1"
    and "Enqueue good_io e1 (u, d) = (u1, d1)" "up_take io n (u1, d1) = (batch, u2, d2)"
    and "Enqueue io' e2 (u2, d2) = (u3, d3)" "up_take io'' m (u3, d3) = (batch2, u4, d4)"
  shows "batch @ up_buf u2 = up_buf u \<and> batch2 @ up_buf u4 = up_buf u2 @ [e2] \<and> spilled d4 = [e1]"
proof -
  obtain u0 where u0: "spillLocked good_io e1 (u, d) = (u0, d1)" "u1 = signal u0"
    using assms(2,6) by (auto simp: Enqueue_def split: prod.splits)
  have u0': "up_capacity u0 = up_capacity u"
    using u0(1) by (auto simp: spillLocked_def Let_def split: if_splits)
  have d1: "spilled d1 = [e1]" "up_buf u1 = up_buf u" "up_capacity u1 = up_capacity u"
    using spillLocked_good [OF assms(4,5) u0(1)] u0(2) assms(3) u0' by (simp_all add: signal_def)
  let ?k = "batchLen (up_buf u) n (up_maxBatchBytes u1)"
  have t: "batch = take ?k (up_buf u)" "up_buf u2 = drop ?k (up_buf u)" "d2 = d1" "up_capacity u2 = up_capacity u"
    using assms(1,7) d1 by (auto simp: up_take_def Let_def)
  have "0 < ?k" using assms(1) by simp
  then have room: "length (up_buf u2) < up_capacity u2" using t assms(1,2) by simp
  then have u3: "up_buf u3 = up_buf u2 @ [e2]" "d3 = d1"
    using assms(8) t(3) by (auto simp: Enqueue_def signal_def Let_def)
  let ?j = "batchLen (up_buf u3) m (up_maxBatchBytes u3)"
  have "batch2 = take ?j (up_buf u3)" "up_buf u4 = drop ?j (up_buf u3)" "d4 = d3"
    using assms(9) u3(1) by (auto simp: up_take_def Let_def simp del: take_append drop_append)
  then show ?thesis using t(1,2) u3 d1(1) by (metis append_take_drop_id)
qed

theorem spilled_event_overtaken_witness:
  "\<exists>u3 d3 batch2 u4 d4. up_take good_io 200 (u3, d3) = (batch2, u4, d4) \<and>
     batch2 @ up_buf u4 = [demo_event\<lparr>ev_Timestamp := 18\<rparr>] \<and> spilled d4 = [demo_event]"
proof -
  define u where "u = (NewWithCapacity demo_config good_io demo_disk 1)\<lparr>up_buf := [demo_event]\<rparr>"
  define r1 where "r1 = Enqueue good_io demo_event (u, demo_disk)"
  define t1 where "t1 = up_take good_io 200 (fst r1, snd r1)"
  define r2 where "r2 = Enqueue good_io (demo_event\<lparr>ev_Timestamp := 18\<rparr>) (fst (snd t1), snd (snd t1))"
  define t2 where "t2 = up_take good_io 200 (fst r2, snd r2)"
  have "up_buf u \<noteq> []" "up_capacity u = length (up_buf u)" "spilled demo_disk = []" "spill_ok demo_disk"
    by (simp_all add: u_def NewWithCapacity_def spilled_def spill_ok_def)
  from spilled_event_overtaken [OF this demo_spillable, of "fst r1" "snd r1" good_io 200 "fst t1" "fst (snd t1)"
      "snd (snd t1)" good_io "demo_event\<lparr>ev_Timestamp := 18\<rparr>" "fst r2" "snd r2" good_io 200 "fst t2" "fst (snd t2)"
      "snd (snd t2)"]
  have "fst t1 @ up_buf (fst (snd t1)) = up_buf u"
    "fst t2 @ up_buf (fst (snd t2)) = up_buf (fst (snd t1)) @ [demo_event\<lparr>ev_Timestamp := 18\<rparr>]"
    "spilled (snd (snd t2)) = [demo_event]"
    by (simp_all add: r1_def t1_def r2_def t2_def)
  moreover have "fst t1 \<noteq> []"
    by (simp add: t1_def r1_def u_def Enqueue_def spillLocked_def good_io_def NewWithCapacity_def up_take_def signal_def
        Let_def)
  moreover have "up_buf u = [demo_event]" by (simp add: u_def)
  ultimately have "fst t2 @ up_buf (fst (snd t2)) = [demo_event\<lparr>ev_Timestamp := 18\<rparr>] \<and> spilled (snd (snd t2)) = [demo_event]"
    by (cases "fst t1") simp_all
  moreover have "up_take good_io 200 (fst r2, snd r2) = (fst t2, fst (snd t2), snd (snd t2))" by (simp add: t2_def)
  ultimately show ?thesis by blast
qed

text \<open>
  C40. A spill file whose first line is as long as the scanner's buffer (10 MiB) is never read past that line: the scan
  ends with an error and no event, the file stays, and every later call does the same, so everything
  spilled behind that line is held back for good.
\<close>

theorem spill_file_poisoned:
  assumes "dk_spill d = Some c" "maxSpillLineSize \<le> length (takeWhile (\<lambda>x. x \<noteq> newline) c)" "up_buf u = []"
    and "io_read io = None"
  shows "up_take io n (u, d) = ([], u\<lparr>up_spill := False\<rparr>, d)"
proof -
  have "c \<noteq> []" using assms(2) by auto
  then have "scan_lines maxSpillLineSize c = ([], True)"
    using assms(2) by (subst scan_lines.simps) (simp add: Let_def)
  then have "spill_events c = []" by (simp add: spill_events_def List.map_filter_def)
  then show ?thesis
    using assms(1,3,4) by (simp add: up_take_def replaySpillLocked_def read_part_def Let_def)
qed

theorem spill_file_poisoned_witness:
  "let c = replicate maxSpillLineSize CHR ''x'' @ [newline] @ spill_line demo_event; u = us_u demo_start;
       d = demo_disk\<lparr>dk_spill := Some c\<rparr>
   in up_take good_io 200 (u, d) = ([], u\<lparr>up_spill := False\<rparr>, d)"
proof -
  have "takeWhile (\<lambda>x. x \<noteq> newline) (replicate k CHR ''x'' @ [newline] @ r) = replicate k CHR ''x''" for k r
    by (induction k) simp_all
  moreover define c where "c = replicate maxSpillLineSize CHR ''x'' @ [newline] @ spill_line demo_event"
  ultimately have "maxSpillLineSize \<le> length (takeWhile (\<lambda>x. x \<noteq> newline) c)"
    by (simp only: length_replicate)
  moreover have "up_buf (us_u demo_start) = []"
    by (simp add: demo_start_def up_start_def uploader_New_def NewWithCapacity_def)
  moreover have "io_read good_io = None" "dk_spill (demo_disk\<lparr>dk_spill := Some c\<rparr>) = Some c"
    by (simp_all add: good_io_def)
  ultimately show ?thesis
    unfolding Let_def c_def [symmetric] by (intro spill_file_poisoned)
qed

end
