(* ===== verification/Unstructured.thy ===== *)
theory Unstructured
  imports Json
begin

text \<open>
  The accessors of \<^verbatim>\<open>k8s.io/apimachinery\<close> for unstructured objects. Their code is not part of the
  repository, so they are the fields of a record that the definitions take as an argument. What the
  program relies on of their documented behaviour are the predicates below, which theorems take as
  hypotheses. A reference instance satisfies all of them; witnesses use it.
  An object is a value here, so \<^verbatim>\<open>DeepCopy\<close> is the identity.
\<close>

type_synonym smap = "(string \<times> string) list"

record unstr =
  GetName :: "jobj \<Rightarrow> string"
  GetNamespace :: "jobj \<Rightarrow> string"
  GetKind :: "jobj \<Rightarrow> string"
  GetAPIVersion :: "jobj \<Rightarrow> string"
  GetResourceVersion :: "jobj \<Rightarrow> string"
  GetCreationTimestamp :: "jobj \<Rightarrow> json"
  GroupVersionKind :: "jobj \<Rightarrow> string \<times> string \<times> string"
  GetLabels :: "jobj \<Rightarrow> smap option"
  GetAnnotations :: "jobj \<Rightarrow> smap option"
  SetName :: "string \<Rightarrow> jobj \<Rightarrow> jobj"
  SetNamespace :: "string \<Rightarrow> jobj \<Rightarrow> jobj"
  SetResourceVersion :: "string \<Rightarrow> jobj \<Rightarrow> jobj"
  SetAnnotations :: "smap \<Rightarrow> jobj \<Rightarrow> jobj"
  NestedString :: "jobj \<Rightarrow> string list \<Rightarrow> string \<times> bool"
  NestedStringMap :: "jobj \<Rightarrow> string list \<Rightarrow> smap option \<times> bool \<times> string option"
  NestedMap :: "jobj \<Rightarrow> string list \<Rightarrow> jobj option \<times> bool"
  NestedSlice :: "jobj \<Rightarrow> string list \<Rightarrow> string + json list"
  NestedStringSlice :: "jobj \<Rightarrow> string list \<Rightarrow> string list"
  SetNestedField :: "json \<Rightarrow> string list \<Rightarrow> jobj \<Rightarrow> jobj option"
  SetNestedStringMap :: "smap \<Rightarrow> string list \<Rightarrow> jobj \<Rightarrow> jobj option"

text \<open>An object whose values are all strings, as a map of strings.\<close>

fun to_strings :: "jobj \<Rightarrow> smap option" where
  "to_strings [] = Some []"
| "to_strings ((k, v) # m) =
     (case (v, to_strings m) of (JStr s, Some r) \<Rightarrow> Some ((k, s) # r) | _ \<Rightarrow> None)"

text \<open>Assigning at a path, creating the objects on the way; \<open>None\<close> if the path meets something else.\<close>

fun json_put :: "json \<Rightarrow> string list \<Rightarrow> jobj \<Rightarrow> jobj option" where
  "json_put v [] m = None"
| "json_put v [k] m = Some (obj_put k v m)"
| "json_put v (k # ks) m =
     (case obj_get m k of
        None \<Rightarrow> map_option (\<lambda>m'. obj_put k (JObj m') m) (json_put v ks [])
      | Some (JObj m1) \<Rightarrow> map_option (\<lambda>m'. obj_put k (JObj m') m) (json_put v ks m1)
      | Some _ \<Rightarrow> None)"

section \<open>Documented behaviour\<close>

text \<open>\<^verbatim>\<open>GetAnnotations\<close> reads, \<^verbatim>\<open>SetAnnotations\<close> writes \<^verbatim>\<open>metadata.annotations\<close>.\<close>

definition annotations_law :: "unstr \<Rightarrow> bool" where
  "annotations_law U \<longleftrightarrow>
     (\<forall>m meta a. obj_map m ''metadata'' = Some meta \<longrightarrow>
        GetAnnotations U m =
          (case obj_get meta ''annotations'' of Some (JObj ann) \<Rightarrow> to_strings ann | _ \<Rightarrow> None) \<and>
        SetAnnotations U a m =
          obj_put ''metadata'' (JObj (obj_put ''annotations'' (JObj (of_strings a)) meta)) m)"

text \<open>The nested readers return what is at the path, and the nested writers put it there.\<close>

definition nested_string_law :: "unstr \<Rightarrow> bool" where
  "nested_string_law U \<longleftrightarrow>
     (\<forall>m p. NestedString U m p = (case json_at p m of Some (JStr s) \<Rightarrow> (s, True) | _ \<Rightarrow> ('''', False)))"

definition nested_strings_law :: "unstr \<Rightarrow> bool" where
  "nested_strings_law U \<longleftrightarrow>
     (\<forall>m p. fst (NestedStringMap U m p) =
        (case json_at p m of Some (JObj a) \<Rightarrow> to_strings a | _ \<Rightarrow> None))"

definition set_nested_law :: "unstr \<Rightarrow> bool" where
  "set_nested_law U \<longleftrightarrow>
     (\<forall>v p m. SetNestedField U v p m = json_put v p m) \<and>
     (\<forall>a p m. SetNestedStringMap U a p m = json_put (JObj (of_strings a)) p m)"

text \<open>The kind is the string at the key of that name; metadata writes leave it and the other keys alone.\<close>

definition kind_law :: "unstr \<Rightarrow> bool" where
  "kind_law U \<longleftrightarrow> (\<forall>m. GetKind U m = (case obj_get m ''kind'' of Some (JStr s) \<Rightarrow> s | _ \<Rightarrow> ''''))"

section \<open>A reference instance\<close>

definition ref_string :: "string list \<Rightarrow> jobj \<Rightarrow> string" where
  "ref_string p m = (case json_at p m of Some (JStr s) \<Rightarrow> s | _ \<Rightarrow> '''')"

definition ref_strings :: "string list \<Rightarrow> jobj \<Rightarrow> smap option" where
  "ref_strings p m = (case json_at p m of Some (JObj a) \<Rightarrow> to_strings a | _ \<Rightarrow> None)"

definition ref_put :: "json \<Rightarrow> string list \<Rightarrow> jobj \<Rightarrow> jobj" where
  "ref_put v p m = (case json_put v p m of Some m' \<Rightarrow> m' | None \<Rightarrow> m)"

definition ref_gvk :: "jobj \<Rightarrow> string \<times> string \<times> string" where
  "ref_gvk m =
     (let av = ref_string [''apiVersion''] m; k = ref_string [''kind''] m
      in case Split av (CHR ''/'') of [g, v] \<Rightarrow> (g, v, k) | _ \<Rightarrow> ('''', av, k))"

definition ref_unstr :: unstr where
  "ref_unstr =
     \<lparr> GetName = ref_string [''metadata'', ''name''],
       GetNamespace = ref_string [''metadata'', ''namespace''],
       GetKind = ref_string [''kind''],
       GetAPIVersion = ref_string [''apiVersion''],
       GetResourceVersion = ref_string [''metadata'', ''resourceVersion''],
       GetCreationTimestamp = (\<lambda>m. case json_at [''metadata'', ''creationTimestamp''] m of
          Some (JStr s) \<Rightarrow> JStr s | _ \<Rightarrow> JNull),
       GroupVersionKind = ref_gvk,
       GetLabels = ref_strings [''metadata'', ''labels''],
       GetAnnotations = ref_strings [''metadata'', ''annotations''],
       SetName = (\<lambda>s. ref_put (JStr s) [''metadata'', ''name'']),
       SetNamespace = (\<lambda>s. ref_put (JStr s) [''metadata'', ''namespace'']),
       SetResourceVersion = (\<lambda>s. ref_put (JStr s) [''metadata'', ''resourceVersion'']),
       SetAnnotations = (\<lambda>a. ref_put (JObj (of_strings a)) [''metadata'', ''annotations'']),
       NestedString = (\<lambda>m p. case json_at p m of Some (JStr s) \<Rightarrow> (s, True) | _ \<Rightarrow> ('''', False)),
       NestedStringMap = (\<lambda>m p. (ref_strings p m, json_at p m \<noteq> None,
          if json_at p m = None \<or> ref_strings p m \<noteq> None then None else Some ''not a string map'')),
       NestedMap = (\<lambda>m p. case json_at p m of Some (JObj a) \<Rightarrow> (Some a, True) | _ \<Rightarrow> (None, False)),
       NestedSlice = (\<lambda>m p. case json_at p m of
          None \<Rightarrow> Inr [] | Some (JArr xs) \<Rightarrow> Inr xs | Some _ \<Rightarrow> Inl ''not a slice''),
       NestedStringSlice = (\<lambda>m p. case json_at p m of
          Some (JArr xs) \<Rightarrow> map (\<lambda>x. case x of JStr s \<Rightarrow> s | _ \<Rightarrow> '''') xs | _ \<Rightarrow> []),
       SetNestedField = json_put,
       SetNestedStringMap = (\<lambda>a. json_put (JObj (of_strings a))) \<rparr>"

lemma ref_laws:
  "annotations_law ref_unstr" "nested_string_law ref_unstr" "nested_strings_law ref_unstr"
  "set_nested_law ref_unstr" "kind_law ref_unstr"
proof -
  show "annotations_law ref_unstr"
    by (auto simp: annotations_law_def ref_unstr_def ref_strings_def ref_put_def obj_map_def
        split: option.splits json.splits)
qed (simp_all add: nested_string_law_def nested_strings_law_def set_nested_law_def kind_law_def
      ref_unstr_def ref_strings_def ref_string_def)

section \<open>Facts about paths and maps of strings\<close>

lemma to_strings_Some: "to_strings m = Some a \<Longrightarrow> m = of_strings a"
proof (induction m arbitrary: a rule: to_strings.induct)
  case (2 k v m)
  then show ?case
    by (auto simp: of_strings_def split: json.splits option.splits)
qed (simp add: of_strings_def)

lemma to_strings_of_strings [simp]: "to_strings (of_strings a) = Some a"
  by (induction a) (auto simp: of_strings_def)

lemma of_strings_update: "of_strings (AList.update k v a) = obj_put k (JStr v) (of_strings a)"
  by (induction a) (auto simp: of_strings_def)

lemma of_strings_delete: "of_strings (AList.delete k a) = obj_del k (of_strings a)"
  by (induction a) (auto simp: of_strings_def)

lemma json_at_put_same:
  "json_put v p m = Some m' \<Longrightarrow> json_at p m' = Some v"
proof (induction v p m arbitrary: m' rule: json_put.induct)
  case (3 v k k' ks m)
  then show ?case
    by (auto simp: obj_map_def obj_get_put split: option.splits json.splits)
qed (auto simp: obj_get_put)

lemma json_put_other:
  "json_put v (k # ks) m = Some m' \<Longrightarrow> j \<noteq> k \<Longrightarrow> obj_get m' j = obj_get m j"
  by (cases ks) (auto simp: obj_get_put split: option.splits json.splits)

end
