(* ===== verification/Manifest.thy ===== *)
theory Manifest
  imports Unstructured
begin

text \<open>
  How \<^verbatim>\<open>internal/executor\<close> builds the body of an update: the manifest is overlaid on the live object,
  then the fields the API server treats as immutable or grow-only are taken from the live object.
\<close>

section \<open>Overlay\<close>

fun mergeMap :: "jobj \<Rightarrow> jobj \<Rightarrow> jobj" where
  "mergeMap out [] = out"
| "mergeMap out ((k, v) # override) =
     mergeMap
       (case v of
          JNull \<Rightarrow> obj_del k out
        | JObj ov \<Rightarrow>
            (case obj_map out k of
               Some bv \<Rightarrow> obj_put k (JObj (mergeMap bv ov)) out
             | None \<Rightarrow> obj_put k v out)
        | _ \<Rightarrow> obj_put k v out)
       override"

definition mergeForUpdate :: "jobj \<Rightarrow> jobj \<Rightarrow> jobj" where
  "mergeForUpdate live desired = mergeMap live desired"

section \<open>Immutable fields\<close>

text \<open>Each listed field is copied from the live spec, or removed if that does not have it.\<close>

definition adopt_fields :: "string list \<Rightarrow> jobj \<Rightarrow> jobj \<Rightarrow> jobj" where
  "adopt_fields fs liveSpec spec =
     fold (\<lambda>f s. case obj_get liveSpec f of Some v \<Rightarrow> obj_put f v s | None \<Rightarrow> obj_del f s) fs spec"

definition reconcileSelectorLabels :: "unstr \<Rightarrow> jobj \<Rightarrow> jobj" where
  "reconcileSelectorLabels U obj =
     (let selector = (case fst (NestedStringMap U obj [''spec'', ''selector'', ''matchLabels'']) of
            None \<Rightarrow> [] | Some s \<Rightarrow> s)
      in if selector = [] then obj
         else
           (let labels = (case fst (NestedStringMap U obj [''spec'', ''template'', ''metadata'', ''labels'']) of
                  None \<Rightarrow> [] | Some l \<Rightarrow> l);
                labels' = fold (\<lambda>(k, v). AList.update k v) selector labels
            in case SetNestedStringMap U labels' [''spec'', ''template'', ''metadata'', ''labels''] obj of
                 None \<Rightarrow> obj
               | Some obj' \<Rightarrow> obj'))"

text \<open>
  Quantities are a library type: their parser (\<open>None\<close> for an error) and their comparison are
  arguments, and what the code relies on is that the comparison is a total order.
\<close>

record 'q quantities =
  ParseQuantity :: "string \<Rightarrow> 'q option"
  QuantityCmp :: "'q \<Rightarrow> 'q \<Rightarrow> int"

definition cmp_law :: "'q quantities \<Rightarrow> bool" where
  "cmp_law Q \<longleftrightarrow>
     (\<forall>a. QuantityCmp Q a a = 0) \<and>
     (\<forall>a b. QuantityCmp Q a b \<le> 0 \<longleftrightarrow> QuantityCmp Q b a \<ge> 0) \<and>
     (\<forall>a b c. QuantityCmp Q a b \<ge> 0 \<longrightarrow> QuantityCmp Q b c \<ge> 0 \<longrightarrow> QuantityCmp Q a c \<ge> 0)"

abbreviation requestPath :: "string list" where
  "requestPath \<equiv> [''spec'', ''resources'', ''requests'', ''storage'']"

abbreviation capacityPath :: "string list" where
  "capacityPath \<equiv> [''status'', ''capacity'', ''storage'']"

fun floor_of :: "unstr \<Rightarrow> 'q quantities \<Rightarrow> jobj \<Rightarrow> string list list \<Rightarrow> ('q \<times> string) option \<Rightarrow>
    ('q \<times> string) option" where
  "floor_of U Q live [] fl = fl"
| "floor_of U Q live (path # paths) fl =
     (let (s, ok) = NestedString U live path in
      floor_of U Q live paths
        (if \<not> ok \<or> s = '''' then fl
         else case ParseQuantity Q s of
           None \<Rightarrow> fl
         | Some q \<Rightarrow>
             (case fl of
                None \<Rightarrow> Some (q, s)
              | Some (fq, fs) \<Rightarrow> if QuantityCmp Q q fq > 0 then Some (q, s) else fl)))"

definition pvcStorageFloor :: "unstr \<Rightarrow> 'q quantities \<Rightarrow> jobj \<Rightarrow> ('q \<times> string) option" where
  "pvcStorageFloor U Q live = floor_of U Q live [requestPath, capacityPath] None"

definition clampPVCStorage :: "unstr \<Rightarrow> 'q quantities \<Rightarrow> jobj \<Rightarrow> jobj \<Rightarrow> jobj" where
  "clampPVCStorage U Q merged live =
     (case pvcStorageFloor U Q live of
        None \<Rightarrow> merged
      | Some (fq, fs) \<Rightarrow>
          (let req = ParseQuantity Q (fst (NestedString U merged requestPath)) in
           if (case req of None \<Rightarrow> False | Some rq \<Rightarrow> QuantityCmp Q rq fq \<ge> 0) then merged
           else case SetNestedField U (JStr fs) requestPath merged of
             None \<Rightarrow> merged
           | Some merged' \<Rightarrow> merged'))"

definition pvc_fields :: "string list" where
  "pvc_fields = [''volumeName'', ''storageClassName'', ''volumeMode'', ''dataSource'', ''dataSourceRef'', ''selector'']"

definition service_fields :: "string list" where
  "service_fields = [''clusterIP'', ''clusterIPs'', ''ipFamilies'', ''ipFamilyPolicy'']"

definition workload_kinds :: "string list" where
  "workload_kinds = [''Deployment'', ''StatefulSet'', ''DaemonSet'', ''ReplicaSet'', ''Job'']"

definition adoptImmutableFields :: "unstr \<Rightarrow> 'q quantities \<Rightarrow> jobj \<Rightarrow> jobj \<Rightarrow> jobj" where
  "adoptImmutableFields U Q merged live =
     (case (obj_map merged ''spec'', obj_map live ''spec'') of
        (Some spec, Some liveSpec) \<Rightarrow>
          (let kind = GetKind U merged;
               adopt = (\<lambda>fs. obj_put ''spec'' (JObj (adopt_fields fs liveSpec spec)) merged)
           in if kind = ''PersistentVolumeClaim'' then clampPVCStorage U Q (adopt pvc_fields) live
              else if kind = ''Service'' then adopt service_fields
              else if kind \<in> set workload_kinds then reconcileSelectorLabels U (adopt [''selector''])
              else merged)
      | _ \<Rightarrow> merged)"

section \<open>Facts\<close>

lemma obj_get_merge:
  "distinct (map fst ov) \<Longrightarrow>
   obj_get (mergeMap base ov) k =
     (case obj_get ov k of
        None \<Rightarrow> obj_get base k
      | Some JNull \<Rightarrow> None
      | Some (JObj o') \<Rightarrow>
          (case obj_map base k of Some b' \<Rightarrow> Some (JObj (mergeMap b' o')) | None \<Rightarrow> Some (JObj o'))
      | Some v \<Rightarrow> Some v)"
proof (induction ov arbitrary: base)
  case (Cons p ov)
  obtain j v where p: "p = (j, v)" by fastforce
  show ?case
  proof (cases "j = k")
    case True
    with Cons.prems p have "obj_get ov k = None" by (simp add: map_of_eq_None_iff)
    with Cons True p show ?thesis
      by (simp add: obj_get_put obj_get_del split: json.split option.split)
  next
    case False
    with Cons p show ?thesis
      by (simp add: obj_get_put obj_get_del obj_map_put obj_map_del split: json.split option.split)
  qed
qed simp

lemma obj_map_merge:
  "distinct (map fst ov) \<Longrightarrow> obj_get ov k = None \<Longrightarrow> obj_map (mergeMap base ov) k = obj_map base k"
  by (simp add: obj_map_def obj_get_merge)

lemma obj_map_merge_map:
  "distinct (map fst ov) \<Longrightarrow> obj_map ov k = Some o' \<Longrightarrow> obj_map (mergeMap base ov) k =
     Some (case obj_map base k of Some b' \<Rightarrow> mergeMap b' o' | None \<Rightarrow> o')"
  unfolding obj_map_Some by (simp add: obj_get_merge split: option.split)

lemma get_adopt_fields:
  "obj_get (adopt_fields fs liveSpec spec) k =
     (if k \<in> set fs then obj_get liveSpec k else obj_get spec k)"
  unfolding adopt_fields_def
  by (induction fs arbitrary: spec) (auto simp: obj_get_put obj_get_del split: option.splits)

lemma json_at_Cons2:
  "json_at (k # k' # ks) m = (case obj_map m k of Some m' \<Rightarrow> json_at (k' # ks) m' | None \<Rightarrow> None)"
  by simp

lemma json_at_snoc: "p \<noteq> [] \<Longrightarrow> json_at p m = Some (JObj a) \<Longrightarrow> json_at (p @ [k]) m = obj_get a k"
proof (induction p m rule: json_at.induct)
  case (3 k' k'' ks m)
  then show ?case by (auto split: option.splits)
qed (simp_all add: obj_map_Some [THEN iffD2])

text \<open>A path the overlay leaves alone: some key on it is absent from the manifest.\<close>

fun omits :: "jobj \<Rightarrow> string list \<Rightarrow> bool" where
  "omits ov [] \<longleftrightarrow> False"
| "omits ov (k # ks) \<longleftrightarrow>
     (case obj_get ov k of None \<Rightarrow> True | Some (JObj o') \<Rightarrow> omits o' ks | Some _ \<Rightarrow> False)"

lemma merge_omitted:
  "wf_obj ov \<Longrightarrow> omits ov p \<Longrightarrow> json_at p base = Some v \<Longrightarrow> json_at p (mergeMap base ov) = Some v"
proof (induction p arbitrary: ov base)
  case (Cons k ks)
  have d: "distinct (map fst ov)" using Cons.prems(1) by simp
  show ?case
  proof (cases "obj_get ov k")
    case None
    with d Cons.prems(3) show ?thesis
      by (cases ks) (simp_all add: obj_get_merge obj_map_merge)
  next
    case (Some j)
    with Cons.prems(2) obtain o' where o': "j = JObj o'" "omits o' ks"
      by (cases j) simp_all
    then obtain k' ks' where ks: "ks = k' # ks'" by (cases ks) simp_all
    with Cons.prems(3) obtain b' where b': "obj_map base k = Some b'" "json_at ks b' = Some v"
      by (auto split: option.splits)
    have "wf_obj o'"
      using wf_obj_get [OF Cons.prems(1) Some] o'(1) by simp
    then have "json_at ks (mergeMap b' o') = Some v"
      using Cons.IH o'(2) b'(2) by blast
    moreover have "obj_map ov k = Some o'"
      using Some o'(1) by (simp add: obj_map_Some)
    ultimately show ?thesis
      using d b'(1) ks by (simp add: obj_map_merge_map)
  qed
qed simp

lemma merge_sets:
  assumes "wf_obj ov" "json_at p ov = Some v" "p \<noteq> []" "v \<noteq> JNull" "\<And>o'. v \<noteq> JObj o'"
  shows "json_at p (mergeMap base ov) = Some v"
  using assms
proof (induction p arbitrary: ov base)
  case (Cons k ks)
  have d: "distinct (map fst ov)" using Cons.prems(1) by simp
  show ?case
  proof (cases ks)
    case Nil
    with Cons.prems d show ?thesis
      by (cases v) (auto simp: obj_get_merge)
  next
    case (Cons k' ks')
    with Cons.prems(2) obtain o' where o': "obj_map ov k = Some o'" "json_at ks o' = Some v"
      by (auto split: option.splits)
    have "wf_obj o'" using Cons.prems(1) o'(1) by (rule wf_obj_map)
    then have "json_at ks (mergeMap b' o') = Some v" for b'
      using Cons.IH o'(2) Cons.prems(4,5) \<open>ks = k' # ks'\<close> by blast
    with d o' Cons show ?thesis
      by (simp add: obj_map_merge_map split: option.split)
  qed
qed simp

lemma merge_removes:
  assumes "wf_obj ov" "json_at p ov = Some JNull" "json_at p base = Some v" "p \<noteq> []"
  shows "json_at p (mergeMap base ov) = None"
  using assms
proof (induction p arbitrary: ov base)
  case (Cons k ks)
  have d: "distinct (map fst ov)" using Cons.prems(1) by simp
  show ?case
  proof (cases ks)
    case Nil
    with Cons.prems d show ?thesis by (simp add: obj_get_merge)
  next
    case (Cons k' ks')
    with Cons.prems(2,3) obtain o' b' where o': "obj_map ov k = Some o'" "json_at ks o' = Some JNull"
      and b': "obj_map base k = Some b'" "json_at ks b' = Some v"
      by (auto split: option.splits)
    have "json_at ks (mergeMap b' o') = None"
      using Cons.IH [OF wf_obj_map [OF Cons.prems(1) o'(1)] o'(2) b'(2)] Cons by simp
    with d o' b' Cons show ?thesis
      by (simp add: obj_map_merge_map)
  qed
qed simp

section \<open>The storage floor\<close>

definition quantity_law :: "'q quantities \<Rightarrow> bool" where
  "quantity_law Q \<longleftrightarrow> cmp_law Q \<and> ParseQuantity Q '''' = None"

text \<open>The quantity a path of the live claim counts for.\<close>

definition counted :: "unstr \<Rightarrow> 'q quantities \<Rightarrow> jobj \<Rightarrow> string list \<Rightarrow> 'q option" where
  "counted U Q live path =
     (let (s, ok) = NestedString U live path in if \<not> ok \<or> s = '''' then None else ParseQuantity Q s)"

lemma floor_of_spec:
  assumes "cmp_law Q" "\<forall>fq fs. fl = Some (fq, fs) \<longrightarrow> ParseQuantity Q fs = Some fq"
  shows "(case floor_of U Q live paths fl of
      None \<Rightarrow> fl = None \<and> (\<forall>p \<in> set paths. counted U Q live p = None)
    | Some (fq, fs) \<Rightarrow> ParseQuantity Q fs = Some fq \<and>
        (\<forall>gq gs. fl = Some (gq, gs) \<longrightarrow> QuantityCmp Q fq gq \<ge> 0) \<and>
        (\<forall>p \<in> set paths. \<forall>q. counted U Q live p = Some q \<longrightarrow> QuantityCmp Q fq q \<ge> 0))"
  using assms(2)
proof (induction paths arbitrary: fl)
  case Nil
  then show ?case
    using assms(1) by (cases fl) (auto simp: cmp_law_def)
next
  case (Cons p paths)
  define fl' where "fl' = (case counted U Q live p of None \<Rightarrow> fl | Some q \<Rightarrow>
      (case fl of None \<Rightarrow> Some (q, fst (NestedString U live p))
       | Some (fq, fs) \<Rightarrow> if QuantityCmp Q q fq > 0 then Some (q, fst (NestedString U live p)) else fl))"
  have step: "floor_of U Q live (p # paths) fl = floor_of U Q live paths fl'"
    by (auto simp: fl'_def counted_def split_def Let_def split: option.splits)
  have parse: "ParseQuantity Q (fst (NestedString U live p)) = Some q" if "counted U Q live p = Some q" for q
    using that by (simp add: counted_def split_def Let_def split: if_splits)
  then have valid: "\<forall>fq fs. fl' = Some (fq, fs) \<longrightarrow> ParseQuantity Q fs = Some fq"
    using Cons.prems by (auto simp: fl'_def split: option.splits if_splits)
  have new: "\<exists>gq gs. fl' = Some (gq, gs) \<and> QuantityCmp Q gq q \<ge> 0" if "counted U Q live p = Some q" for q
    using that assms(1) by (auto simp: fl'_def cmp_law_def not_less split: option.splits)
  have old: "\<exists>gq gs. fl' = Some (gq, gs) \<and> QuantityCmp Q gq hq \<ge> 0" if "fl = Some (hq, hs)" for hq hs
    using that assms(1) by (auto simp: fl'_def cmp_law_def split: option.splits)
  have trans: "QuantityCmp Q a c \<ge> 0" if "QuantityCmp Q a b \<ge> 0" "QuantityCmp Q b c \<ge> 0" for a b c
    using assms(1) that unfolding cmp_law_def by blast
  show ?case
  proof (cases "floor_of U Q live paths fl'")
    case None
    with Cons.IH [OF valid] have n: "fl' = None" "\<forall>p \<in> set paths. counted U Q live p = None" by simp_all
    have "fl = None" using old n(1) by (cases fl) auto
    moreover have "counted U Q live p = None" using new n(1) by (cases "counted U Q live p") auto
    ultimately show ?thesis using step None n by simp
  next
    case (Some r)
    obtain fq fs where r: "r = (fq, fs)" by fastforce
    with Cons.IH [OF valid] Some have s: "ParseQuantity Q fs = Some fq"
      "\<And>gq gs. fl' = Some (gq, gs) \<Longrightarrow> QuantityCmp Q fq gq \<ge> 0"
      "\<And>p q. p \<in> set paths \<Longrightarrow> counted U Q live p = Some q \<Longrightarrow> QuantityCmp Q fq q \<ge> 0"
      by auto
    have "QuantityCmp Q fq hq \<ge> 0" if "fl = Some (hq, hs)" for hq hs
      using old [OF that] s(2) trans by blast
    moreover have "QuantityCmp Q fq q \<ge> 0" if "counted U Q live p = Some q" for q
      using new [OF that] s(2) trans by blast
    ultimately show ?thesis
      using step Some r s by auto
  qed
qed

lemma pvcStorageFloor_spec:
  assumes "cmp_law Q" "p \<in> {requestPath, capacityPath}" "counted U Q live p = Some q"
  obtains fq fs where "pvcStorageFloor U Q live = Some (fq, fs)" "ParseQuantity Q fs = Some fq"
    "QuantityCmp Q fq q \<ge> 0"
proof -
  have p: "p \<in> set [requestPath, capacityPath]" using assms(2) by simp
  show ?thesis
    using floor_of_spec [OF assms(1), where fl = None and U = U and live = live and paths = "[requestPath, capacityPath]"] p assms(3) that
    unfolding pvcStorageFloor_def
    by (cases "floor_of U Q live [requestPath, capacityPath] None") (auto simp del: floor_of.simps)
qed

lemma map_of_fold_update:
  "distinct (map fst sel) \<Longrightarrow> map_of (fold (\<lambda>(k, v). AList.update k v) sel m) k =
     (case map_of sel k of Some v \<Rightarrow> Some v | None \<Rightarrow> map_of m k)"
proof (induction sel arbitrary: m)
  case (Cons p sel)
  obtain j v where p: "p = (j, v)" by fastforce
  with Cons.prems have "map_of sel j = None" by (simp add: map_of_eq_None_iff)
  with Cons.IH [of "AList.update j v m"] Cons.prems p show ?case
    by (simp add: update_conv' split: option.split)
qed simp

text \<open>A path that \<^verbatim>\<open>SetNested...\<close> can write: what exists on the way are objects.\<close>

fun writable :: "string list \<Rightarrow> jobj \<Rightarrow> bool" where
  "writable [] m \<longleftrightarrow> False"
| "writable [k] m \<longleftrightarrow> True"
| "writable (k # ks) m \<longleftrightarrow>
     (case obj_get m k of None \<Rightarrow> True | Some (JObj m') \<Rightarrow> writable ks m' | Some _ \<Rightarrow> False)"

lemma writable_empty: "ks \<noteq> [] \<Longrightarrow> writable ks []"
  by (induction ks rule: induct_list012) simp_all

lemma writable_put: "writable p m \<Longrightarrow> \<exists>m'. json_put v p m = Some m'"
proof (induction v p m rule: json_put.induct)
  case (3 v k k' ks m)
  then show ?case
    using writable_empty [of "k' # ks"] by (auto split: option.splits json.splits)
qed simp_all

text \<open>The storage clamp leaves a request that is large enough, and writes the floor otherwise.\<close>

lemma clampPVCStorage_cases:
  assumes laws: "quantity_law Q" "nested_string_law U" "set_nested_law U"
    and fl: "pvcStorageFloor U Q live = Some (fq, fs)" and w: "writable requestPath m"
  obtains (kept) rq s where "clampPVCStorage U Q m live = m" "json_at requestPath m = Some (JStr s)"
      "ParseQuantity Q s = Some rq" "QuantityCmp Q rq fq \<ge> 0"
  | (raised) m' where "clampPVCStorage U Q m live = m'" "json_put (JStr fs) requestPath m = Some m'"
proof (cases "\<exists>rq. ParseQuantity Q (fst (NestedString U m requestPath)) = Some rq \<and> QuantityCmp Q rq fq \<ge> 0")
  case True
  then obtain rq where rq: "ParseQuantity Q (fst (NestedString U m requestPath)) = Some rq" "QuantityCmp Q rq fq \<ge> 0"
    by blast
  obtain s where "json_at requestPath m = Some (JStr s)" "ParseQuantity Q s = Some rq"
    using rq(1) laws(1,2)
    by (auto simp: quantity_law_def nested_string_law_def simp del: json_at.simps split: option.splits json.splits)
  then show ?thesis
    using rq fl by (intro kept) (simp_all add: clampPVCStorage_def Let_def del: json_at.simps)
next
  case False
  obtain m' where m': "json_put (JStr fs) requestPath m = Some m'" using writable_put [OF w] by blast
  then have "SetNestedField U (JStr fs) requestPath m = Some m'"
    using laws(3) by (simp add: set_nested_law_def del: json_put.simps)
  then show ?thesis
    using False fl m' by (intro raised) (auto simp: clampPVCStorage_def Let_def simp del: json_put.simps split: option.splits)
qed

lemma put_storage_keeps:
  assumes "json_put v requestPath (obj_put ''spec'' (JObj a) m) = Some m'" "f \<noteq> ''resources''"
  shows "json_at [''spec'', f] m' = obj_get a f"
proof -
  obtain a' where "json_put v [''resources'', ''requests'', ''storage''] a = Some a'"
    "m' = obj_put ''spec'' (JObj a') (obj_put ''spec'' (JObj a) m)"
    using assms(1) by (auto simp: obj_get_put)
  with assms(2) json_put_other [of v "''resources''" "[''requests'', ''storage'']" a a' f]
  show ?thesis by (simp add: obj_map_put del: json_put.simps)
qed

text \<open>The labels of the pod template after the selector was reconciled.\<close>

lemma reconcile_labels:
  assumes laws: "nested_strings_law U" "set_nested_law U"
    and m: "obj_map m ''spec'' = Some a"
    and sel: "json_at [''selector'', ''matchLabels''] a = Some (JObj (of_strings sel))" "distinct (map fst sel)"
    and tmpl: "json_at [''template'', ''metadata'', ''labels''] a = Some (JObj (of_strings lab))"
  shows "json_at [''spec'', ''selector''] (reconcileSelectorLabels U m) = obj_get a ''selector'' \<and>
    json_at [''spec'', ''template'', ''metadata'', ''labels'', k] (reconcileSelectorLabels U m) =
      map_option JStr (case map_of sel k of Some v \<Rightarrow> Some v | None \<Rightarrow> map_of lab k)"
proof -
  let ?lp = "[''template'', ''metadata'', ''labels'']"
  let ?l = "fold (\<lambda>(k, v). AList.update k v) sel lab"
  let ?v = "JObj (of_strings ?l)"
  have nsm: "fst (NestedStringMap U m p) = (case json_at p m of Some (JObj a) \<Rightarrow> to_strings a | _ \<Rightarrow> None)" for m p
    using laws(1) by (simp add: nested_strings_law_def)
  have s: "fst (NestedStringMap U m [''spec'', ''selector'', ''matchLabels'']) = Some sel"
    and l: "fst (NestedStringMap U m (''spec'' # ?lp)) = Some lab"
    using sel(1) tmpl m by (simp_all add: nsm)
  show ?thesis
  proof (cases "sel = []")
    case True
    then have "reconcileSelectorLabels U m = m" using s by (simp add: reconcileSelectorLabels_def Let_def)
    then show ?thesis
      using True json_at_snoc [OF _ tmpl, of k] m by (simp add: map_of_strings)
  next
    case False
    have "writable ?lp a" using tmpl by (auto simp: obj_map_def split: option.splits json.splits)
    then obtain a' where a': "json_put ?v ?lp a = Some a'" using writable_put by blast
    have "obj_get m ''spec'' = Some (JObj a)" using m by (auto simp: obj_map_def split: option.splits json.splits)
    then have "json_put ?v (''spec'' # ?lp) m = Some (obj_put ''spec'' (JObj a') m)" using a' by simp
    then have "reconcileSelectorLabels U m = obj_put ''spec'' (JObj a') m"
      using s l False laws(2) by (simp add: reconcileSelectorLabels_def set_nested_law_def Let_def del: json_put.simps)
    moreover have "json_at (?lp @ [k]) a' = obj_get (of_strings ?l) k"
      using json_at_put_same [OF a'] by (intro json_at_snoc) simp_all
    ultimately show ?thesis
      using json_put_other [OF a', of "''selector''"]
      by (simp add: obj_map_put map_of_strings map_of_fold_update [OF sel(2)])
  qed
qed

section \<open>Properties\<close>

text \<open>
  C26. The overlay that builds an update: a value the live object has at a path the manifest does not
  mention is kept; a scalar or list the manifest sets at a path replaces whatever was there; and an
  explicit null in the manifest removes the live value at its path.
\<close>

theorem mergeForUpdate_overlay:
  assumes "wf_obj desired" "p \<noteq> []"
  shows "(omits desired p \<and> json_at p live = Some v \<longrightarrow> json_at p (mergeForUpdate live desired) = Some v) \<and>
    (json_at p desired = Some w \<and> w \<noteq> JNull \<and> (\<forall>o'. w \<noteq> JObj o') \<longrightarrow>
       json_at p (mergeForUpdate live desired) = Some w) \<and>
    (json_at p desired = Some JNull \<and> json_at p live = Some v \<longrightarrow>
       json_at p (mergeForUpdate live desired) = None)"
  using merge_omitted [OF assms(1), of p live v] merge_sets [OF assms(1) _ assms(2), of w live]
    merge_removes [OF assms(1) _ _ assms(2), of live v]
  unfolding mergeForUpdate_def by blast

theorem mergeForUpdate_overlay_witness:
  "let live = [(''spec'', JObj [(''replicas'', JNum ''1''), (''clusterIP'', JStr ''10.0.0.7'')])];
       desired = [(''spec'', JObj [(''replicas'', JNum ''3'')])]
   in json_at [''spec'', ''clusterIP''] (mergeForUpdate live desired) = Some (JStr ''10.0.0.7'')"
  using mergeForUpdate_overlay [of "[(''spec'', JObj [(''replicas'', JNum ''3'')])]" "[''spec'', ''clusterIP'']"
      "[(''spec'', JObj [(''replicas'', JNum ''1''), (''clusterIP'', JStr ''10.0.0.7'')])]" "JStr ''10.0.0.7''"]
  by (simp add: obj_map_def)


text \<open>Quantities that are plain numbers, for concrete instances.\<close>

definition plain_quantities :: "int quantities" where
  "plain_quantities = \<lparr>ParseQuantity = (\<lambda>s. if s = '''' then None else ParseInt s), QuantityCmp = (-)\<rparr>"

lemma plain_quantity_law: "quantity_law plain_quantities"
  by (auto simp: quantity_law_def cmp_law_def plain_quantities_def)

definition demo_pvc :: "string \<Rightarrow> jobj" where
  "demo_pvc req = [(''kind'', JStr ''PersistentVolumeClaim''),
     (''spec'', JObj [(''resources'', JObj [(''requests'', JObj [(''storage'', JStr req)])])])]"



definition demo_workload :: "smap \<Rightarrow> smap \<Rightarrow> jobj" where
  "demo_workload sel lab = [(''kind'', JStr ''Deployment''),
     (''spec'', JObj [(''selector'', JObj [(''matchLabels'', JObj (of_strings sel))]),
       (''template'', JObj [(''metadata'', JObj [(''labels'', JObj (of_strings lab))])])])]"


end
