(* ===== verification/Drift.thy ===== *)
theory Drift
  imports Unstructured Json_Parse
begin

text \<open>
  The package \<^verbatim>\<open>internal/drift\<close>: the content hash of an object without its server-managed metadata, the
  comparison with an expected hash, and the annotation that records the hash.
\<close>

section \<open>Definitions\<close>

abbreviation HashAnnotation :: string where "HashAnnotation \<equiv> ''k8s-agent.io/last-applied-hash''"

definition volatileMetaKeys :: "string list" where
  "volatileMetaKeys =
     [''resourceVersion'', ''uid'', ''generation'', ''creationTimestamp'', ''managedFields'']"

definition strip_meta :: "jobj \<Rightarrow> jobj" where
  "strip_meta meta0 =
     (let meta = fold obj_del volatileMetaKeys meta0 in
      case obj_map meta ''annotations'' of
        None \<Rightarrow> meta
      | Some ann \<Rightarrow>
          (let ann' = obj_del HashAnnotation ann in
           if ann' = [] then obj_del ''annotations'' meta
           else obj_put ''annotations'' (JObj ann') meta))"

definition hashed_content :: "jobj \<Rightarrow> jobj" where
  "hashed_content m =
     (case obj_map m ''metadata'' of
        None \<Rightarrow> m
      | Some meta \<Rightarrow> obj_put ''metadata'' (JObj (strip_meta meta)) m)"

definition HashObject :: "jobj \<Rightarrow> string" where
  "HashObject obj = sha256_hex (Marshal (JObj (hashed_content obj)))"

definition shortHash :: "string \<Rightarrow> string" where
  "shortHash h = (if length h > 12 then take 12 h else h)"

definition Check :: "unstr \<Rightarrow> jobj \<Rightarrow> string \<Rightarrow> bool \<times> string" where
  "Check U live expectedHash =
     (let liveHash = HashObject live in
      if liveHash = expectedHash then (True, '''')
      else (False, ''drift detected on '' @ GetKind U live @ '' '' @ GetNamespace U live @ ''/'' @
              GetName U live @ '': expected hash '' @ shortHash expectedHash @ '', live hash '' @
              shortHash liveHash))"

definition Stamp :: "unstr \<Rightarrow> jobj \<Rightarrow> jobj" where
  "Stamp U obj =
     (let ann = (case GetAnnotations U obj of None \<Rightarrow> [] | Some a \<Rightarrow> a)
      in SetAnnotations U (AList.update HashAnnotation (HashObject obj) ann) obj)"

section \<open>What the hash covers\<close>

text \<open>The paths of an object at which the hash sees every change.\<close>

definition hashed_path :: "string list \<Rightarrow> bool" where
  "hashed_path p \<longleftrightarrow>
     (\<exists>k. p = [k] \<and> k \<noteq> ''metadata'') \<or>
     (\<exists>k. p = [''metadata'', k] \<and> k \<notin> set volatileMetaKeys \<and> k \<noteq> ''annotations'') \<or>
     (\<exists>k. p = [''metadata'', ''annotations'', k] \<and> k \<noteq> HashAnnotation)"

text \<open>An object as the JSON reader delivers it: distinct keys, well-formed numbers, keys in valid UTF-8.\<close>

fun utf8_keys :: "json \<Rightarrow> bool" where
  "utf8_keys (JArr xs) \<longleftrightarrow> (\<forall>x \<in> set xs. utf8_keys x)"
| "utf8_keys (JObj m) \<longleftrightarrow> (\<forall>p \<in> set m. utf8_valid (fst p) \<and> utf8_keys (snd p))"
| "utf8_keys _ \<longleftrightarrow> True"

definition decoded :: "json \<Rightarrow> bool" where
  "decoded v \<longleftrightarrow> wf_json v \<and> nums_ok v \<and> utf8_keys v"

section \<open>Facts\<close>

lemma fold_del_volatile: "fold obj_del volatileMetaKeys m =
    obj_del ''managedFields'' (obj_del ''creationTimestamp'' (obj_del ''generation''
      (obj_del ''uid'' (obj_del ''resourceVersion'' m))))"
  by (simp add: volatileMetaKeys_def)

lemma del_put:
  "obj_del j (obj_put k v m) = (if j = k then obj_del k m else obj_put k v (obj_del j m))"
  by (induction m) auto

lemma put_put_same: "obj_put k v (obj_put k w m) = obj_put k v m"
  by (rule update_last)

lemma fold_del_put:
  "k \<notin> set ks \<Longrightarrow> fold obj_del ks (obj_put k v m) = obj_put k v (fold obj_del ks m)"
  by (induction ks arbitrary: m) (auto simp: del_put)

lemma fold_del_put_in: "k \<in> set ks \<Longrightarrow> fold obj_del ks (obj_put k v m) = fold obj_del ks m"
proof (induction ks arbitrary: m)
  case (Cons j ks)
  then show ?case
    by (cases "j = k") (auto simp: del_put)
qed simp

lemma get_fold_del: "obj_get (fold obj_del ks m) k = (if k \<in> set ks then None else obj_get m k)"
  by (induction ks arbitrary: m) (auto simp: obj_get_del)

lemma annotations_not_volatile [simp]: "''annotations'' \<notin> set volatileMetaKeys"
  by (simp add: volatileMetaKeys_def)

lemma del_absent: "obj_get m k = None \<Longrightarrow> obj_del k m = m"
  by (simp add: map_of_eq_None_iff delete_idem)

text \<open>Writing the hash annotation, or a volatile key, is invisible to the hashed metadata.\<close>

lemma strip_meta_put_volatile:
  "k \<in> set volatileMetaKeys \<Longrightarrow> strip_meta (obj_put k v meta) = strip_meta meta"
  by (simp add: strip_meta_def fold_del_put_in)

lemma strip_meta_stamp:
  assumes "obj_get meta ''annotations'' = None \<and> ann = [] \<or> obj_get meta ''annotations'' = Some (JObj ann)"
  shows "strip_meta (obj_put ''annotations'' (JObj (obj_put HashAnnotation h ann)) meta) = strip_meta meta"
proof -
  let ?meta = "fold obj_del volatileMetaKeys meta"
  have get: "obj_get ?meta ''annotations'' = obj_get meta ''annotations''"
    by (simp add: get_fold_del)
  have strip: "strip_meta (obj_put ''annotations'' (JObj (obj_put HashAnnotation h ann)) meta) =
      (if obj_del HashAnnotation ann = [] then obj_del ''annotations'' ?meta
       else obj_put ''annotations'' (JObj (obj_del HashAnnotation ann)) ?meta)"
    by (simp add: strip_meta_def fold_del_put obj_map_put del_put put_put_same Let_def)
  from assms show ?thesis
  proof
    assume "obj_get meta ''annotations'' = None \<and> ann = []"
    with strip get show ?thesis
      by (simp add: strip_meta_def obj_map_def del_absent Let_def)
  next
    assume "obj_get meta ''annotations'' = Some (JObj ann)"
    with strip get show ?thesis
      by (simp add: strip_meta_def obj_map_def Let_def)
  qed
qed

lemma hashed_content_meta:
  "obj_map m ''metadata'' = Some meta \<Longrightarrow> strip_meta meta' = strip_meta meta \<Longrightarrow>
   hashed_content (obj_put ''metadata'' (JObj meta') m) = hashed_content m"
  by (simp add: hashed_content_def obj_map_put put_put_same)

lemma wf_strip_meta: "wf_obj meta \<Longrightarrow> wf_obj (strip_meta meta)"
proof -
  assume wf: "wf_obj meta"
  have "wf_obj (fold obj_del ks meta)" for ks
    using wf by (induction ks arbitrary: meta) (simp_all del: wf_json.simps)
  then show ?thesis
    by (auto simp: strip_meta_def Let_def simp del: wf_json.simps intro: wf_obj_put wf_obj_del wf_obj_map split: option.splits)
qed

lemma wf_hashed_content: "wf_obj m \<Longrightarrow> wf_obj (hashed_content m)"
  using wf_strip_meta wf_obj_map
  by (auto simp: hashed_content_def simp del: wf_json.simps split: option.splits)

text \<open>The keys of a decoded object can be read off its canonical form.\<close>

lemma decoded_member: "decoded (JObj m) \<Longrightarrow> obj_get m k = Some v \<Longrightarrow> decoded v"
  by (auto simp: decoded_def dest!: map_of_SomeD)

lemma decoded_put: "decoded (JObj m) \<Longrightarrow> decoded v \<Longrightarrow> utf8_valid k \<Longrightarrow> decoded (JObj (obj_put k v m))"
  using set_put [of k v m] wf_obj_put [of m v k] by (fastforce simp: decoded_def simp del: wf_json.simps)

lemma decoded_del: "decoded (JObj m) \<Longrightarrow> decoded (JObj (obj_del k m))"
  using set_del [of k m] wf_obj_del [of m k] by (auto simp: decoded_def simp del: wf_json.simps(2))

lemma decoded_fold_del: "decoded (JObj m) \<Longrightarrow> decoded (JObj (fold obj_del ks m))"
  by (induction ks arbitrary: m) (auto intro: decoded_del)

lemma decoded_map: "decoded (JObj m) \<Longrightarrow> obj_map m k = Some o' \<Longrightarrow> decoded (JObj o')"
  by (auto simp: obj_map_def intro: decoded_member split: option.splits json.splits)

lemma decoded_strip_meta: "decoded (JObj m) \<Longrightarrow> decoded (JObj (strip_meta m))"
  by (auto simp: strip_meta_def Let_def utf8_valid_ascii
      intro!: decoded_put decoded_del decoded_fold_del dest: decoded_map [OF decoded_fold_del] split: option.splits)

lemma decoded_hashed: "decoded (JObj m) \<Longrightarrow> decoded (JObj (hashed_content m))"
  by (auto simp: hashed_content_def utf8_valid_ascii intro!: decoded_put decoded_strip_meta dest: decoded_map
      split: option.splits)

lemma distinct_sort_key_fst: "distinct (map fst m) \<Longrightarrow> distinct (map fst (sort_key fst m))"
  by (metis distinct_map distinct_sort set_sort)

lemma canon_get:
  assumes "decoded (JObj m)"
  obtains cm where "canon (JObj m) = JObj cm" "\<And>k. obj_get cm k = map_option canon (obj_get m k)"
proof -
  let ?m = "sort_key fst (map (\<lambda>(k, v). (k, canon v)) m)"
  have keys: "distinct (map fst m)" "\<forall>p \<in> set m. utf8_valid (fst p)" using assms by (auto simp: decoded_def)
  have "map (\<lambda>(k, v). (to_valid k, v)) ?m = ?m"
    using keys(2) by (intro map_idI) (auto simp: to_valid_id)
  moreover have "map_of ?m k = map_option canon (obj_get m k)" for k
  proof -
    let ?c = "map (\<lambda>(k, v). (k, canon v)) m"
    have c: "distinct (map fst ?c)" using keys(1) by (simp add: split_def comp_def)
    then have "distinct (map fst ?m)" by (metis distinct_sort_key_fst)
    with c have "map_of ?m = map_of ?c" by (intro map_of_inject_set [THEN iffD2]) simp_all
    then show ?thesis by (simp add: map_of_map)
  qed
  ultimately show ?thesis using that by simp
qed

lemma canon_eq_get:
  assumes "canon (JObj m) = canon (JObj n)" "decoded (JObj m)" "decoded (JObj n)"
  shows "map_option canon (obj_get m k) = map_option canon (obj_get n k)"
  by (metis assms canon_get json.inject)

lemma get_strip_meta:
  "obj_get (strip_meta meta) k =
     (if k \<in> set volatileMetaKeys then None
      else if k = ''annotations'' then
        (case obj_map meta k of
           None \<Rightarrow> obj_get meta k
         | Some ann \<Rightarrow> if obj_del HashAnnotation ann = [] then None else Some (JObj (obj_del HashAnnotation ann)))
      else obj_get meta k)"
  by (auto simp: strip_meta_def Let_def obj_get_put obj_get_del get_fold_del obj_map_def split: option.splits json.splits)

lemma annotation_hashed:
  assumes "k \<noteq> HashAnnotation"
  shows "json_at [''annotations'', k] meta = json_at [''annotations'', k] (strip_meta meta)"
proof (cases "obj_map meta ''annotations''")
  case None
  then show ?thesis by (simp add: obj_map_def get_strip_meta)
next
  case (Some ann)
  have "obj_get ann k = obj_get (obj_del HashAnnotation ann) k" using assms by (simp add: obj_get_del)
  then show ?thesis using Some by (simp add: obj_map_def [of "strip_meta meta"] get_strip_meta)
qed

lemma canon_eq_at2:
  assumes "canon (JObj m) = canon (JObj n)" "decoded (JObj m)" "decoded (JObj n)"
  shows "map_option canon (json_at [j, k] m) = map_option canon (json_at [j, k] n)"
proof -
  have eq: "map_option canon (obj_get m j) = map_option canon (obj_get n j)" by (rule canon_eq_get [OF assms])
  show ?thesis
  proof (cases "obj_map m j")
    case None
    with eq have "obj_map n j = None"
      by (auto simp: obj_map_def split: option.splits json.splits)
    with None show ?thesis by simp
  next
    case (Some a)
    with eq obtain w where w: "obj_get n j = Some w" "canon (JObj a) = canon w"
      by (cases "obj_get n j") (auto simp: obj_map_Some simp del: canon.simps)
    then obtain b where b: "obj_map n j = Some b" "canon (JObj a) = canon (JObj b)"
      by (cases w) (auto simp: obj_map_Some)
    have "map_option canon (obj_get a k) = map_option canon (obj_get b k)"
      using b(2) decoded_map [OF assms(2) Some] decoded_map [OF assms(3) b(1)] by (rule canon_eq_get)
    with Some b show ?thesis by simp
  qed
qed

section \<open>Properties\<close>

text \<open>
  C29. Stamping does not disturb what it stamps: for an object whose metadata is an object with no
  annotations or string-valued ones, the stamped object has the same content hash as before, the
  hash annotation holds exactly that hash, and the drift check of the stamped object against the
  annotation passes.
\<close>

theorem Stamp_records_hash:
  assumes "annotations_law U" "obj_map m ''metadata'' = Some meta"
    and "obj_get meta ''annotations'' = None \<or>
      (\<exists>a. obj_get meta ''annotations'' = Some (JObj (of_strings a)))"
  shows "HashObject (Stamp U m) = HashObject m \<and>
    json_at [''metadata'', ''annotations'', HashAnnotation] (Stamp U m) = Some (JStr (HashObject m)) \<and>
    Check U (Stamp U m) (HashObject m) = (True, '''')"
proof -
  define a where "a = (case GetAnnotations U m of None \<Rightarrow> [] | Some a \<Rightarrow> a)"
  have GA: "GetAnnotations U m =
      (case obj_get meta ''annotations'' of Some (JObj ann) \<Rightarrow> to_strings ann | _ \<Rightarrow> None)"
    using assms(1,2) unfolding annotations_law_def by blast
  then have ann: "obj_get meta ''annotations'' = None \<and> of_strings a = [] \<or>
      obj_get meta ''annotations'' = Some (JObj (of_strings a))"
    using assms(3) by (auto simp: a_def of_strings_def [of "[]"])
  have stamp: "Stamp U m = obj_put ''metadata'' (JObj (obj_put ''annotations''
      (JObj (obj_put HashAnnotation (JStr (HashObject m)) (of_strings a))) meta)) m"
    using assms(1,2) unfolding annotations_law_def Stamp_def Let_def a_def [symmetric]
    by (simp add: of_strings_update)
  have "hashed_content (Stamp U m) = hashed_content m"
    unfolding stamp by (rule hashed_content_meta [OF assms(2)]) (rule strip_meta_stamp [OF ann])
  then have same: "HashObject (Stamp U m) = HashObject m"
    by (simp add: HashObject_def)
  moreover have "json_at [''metadata'', ''annotations'', HashAnnotation] (Stamp U m) = Some (JStr (HashObject m))"
    unfolding stamp by (simp add: obj_map_put obj_get_put)
  ultimately show ?thesis
    by (simp add: Check_def Let_def)
qed

theorem Stamp_records_hash_witness:
  "let m = [(''kind'', JStr ''ConfigMap''), (''metadata'', JObj [(''name'', JStr ''cm'')])]
   in HashObject (Stamp ref_unstr m) = HashObject m"
  unfolding Let_def
  by (rule Stamp_records_hash [where meta = "[(''name'', JStr ''cm'')]", OF ref_laws(1), THEN conjunct1]) (simp_all add: obj_map_def)



text \<open>
  C12. The drift check misses nothing: if a live object passes the check against the hash of the object seen earlier, then the
  two agree (up to the order of keys) at every field outside the metadata, at every metadata key but the
  volatile ones, and at every annotation but the recorded hash, unless the printed contents of the two objects are a collision of SHA-256.
\<close>

theorem Check_detects_drift:
  assumes "decoded (JObj live)" "decoded (JObj seen)"
    and "obj_map live ''metadata'' \<noteq> None" "obj_map seen ''metadata'' \<noteq> None"
    and "Check U live (HashObject seen) = (True, '''')" "hashed_path p"
  shows "map_option canon (json_at p live) = map_option canon (json_at p seen) \<or>
    (let x = Marshal (JObj (hashed_content live)); y = Marshal (JObj (hashed_content seen))
     in x \<noteq> y \<and> sha256_Sum256 x = sha256_Sum256 y)"
proof (cases "Marshal (JObj (hashed_content live)) = Marshal (JObj (hashed_content seen))")
  case True
  obtain ml ms where m: "obj_map live ''metadata'' = Some ml" "obj_map seen ''metadata'' = Some ms"
    using assms(3,4) by blast
  have d: "decoded (JObj (hashed_content live))" "decoded (JObj (hashed_content seen))"
    using assms(1,2) decoded_hashed by auto
  with True have eq: "canon (JObj (hashed_content live)) = canon (JObj (hashed_content seen))"
    by (intro Marshal_inj_canon) (simp_all add: decoded_def)
  have top: "map_option canon (obj_get (hashed_content live) k) = map_option canon (obj_get (hashed_content seen) k)" for k
    by (rule canon_eq_get [OF eq d])
  have meta: "canon (JObj (strip_meta ml)) = canon (JObj (strip_meta ms))"
    using top [of "''metadata''"] m by (simp add: hashed_content_def obj_get_put del: canon.simps)
  have dm: "decoded (JObj (strip_meta ml))" "decoded (JObj (strip_meta ms))"
    using assms(1,2) m decoded_strip_meta decoded_map by blast+
  from assms(6) consider (top) k where "p = [k]" "k \<noteq> ''metadata''"
    | (meta) k where "p = [''metadata'', k]" "k \<notin> set volatileMetaKeys" "k \<noteq> ''annotations''"
    | (ann) k where "p = [''metadata'', ''annotations'', k]" "k \<noteq> HashAnnotation"
    unfolding hashed_path_def by blast
  then have "map_option canon (json_at p live) = map_option canon (json_at p seen)"
  proof cases
    case top
    then show ?thesis using \<open>\<And>k. map_option canon (obj_get (hashed_content live) k) = _\<close> [of k] m
      by (simp add: hashed_content_def obj_get_put)
  next
    case meta
    then show ?thesis using canon_eq_get [OF \<open>canon (JObj (strip_meta ml)) = _\<close> dm, of k] m
      by (simp add: get_strip_meta)
  next
    case ann
    then show ?thesis
      using canon_eq_at2 [OF meta dm, of "''annotations''" k] m annotation_hashed [OF ann(2)] by simp
  qed
  then show ?thesis ..
qed (use assms(5) in \<open>auto simp: Check_def HashObject_def Let_def split: if_splits\<close>)

theorem Check_detects_drift_witness:
  "let live = [(''kind'', JStr ''ConfigMap''), (''metadata'', JObj [(''name'', JStr ''cm''), (''uid'', JStr ''2'')])];
       seen = [(''kind'', JStr ''ConfigMap''), (''metadata'', JObj [(''name'', JStr ''cm''), (''uid'', JStr ''1'')])]
   in Check ref_unstr live (HashObject seen) = (True, '''') \<and>
      map_option canon (json_at [''metadata'', ''name''] live) = map_option canon (json_at [''metadata'', ''name''] seen)"
proof -
  let ?o = "\<lambda>u. [(''kind'', JStr ''ConfigMap''), (''metadata'', JObj [(''name'', JStr ''cm''), (''uid'', JStr u)])]"
  have c: "hashed_content (?o ''2'') = hashed_content (?o ''1'')"
    by (simp add: hashed_content_def obj_map_def strip_meta_def volatileMetaKeys_def)
  then have k: "Check ref_unstr (?o ''2'') (HashObject (?o ''1'')) = (True, '''')"
    by (simp add: Check_def HashObject_def)
  have d: "decoded (JObj (?o u))" for u by (simp add: decoded_def utf8_valid_ascii)
  have "hashed_path [''metadata'', ''name'']" by (simp add: hashed_path_def volatileMetaKeys_def)
  with Check_detects_drift [OF d d _ _ k] c show ?thesis using k by (simp add: obj_map_def Let_def)
qed

end
