(* ===== verification/Exec_Monad.thy ===== *)
theory Exec_Monad
  imports Config Protocol Manifest Drift "HOL-Library.State_Monad"
begin

text \<open>
  What the executor's handlers do, as a state monad: they interact with the cluster, whose state
  is an arbitrary type \<open>'w\<close> only the functions of the environment touch, and every interaction,
  report and metric is recorded in a trace. Statements about a handler are statements about
  every trace it can produce, whatever the cluster answers; \<open>emits m Q\<close> says that each run of \<open>m\<close> appends a trace
  that satisfies \<open>Q\<close> together with the result of \<open>m\<close>, and the rules below follow the code.
\<close>

section \<open>Interactions\<close>

record gvr =
  g_Group :: string
  g_Version :: string
  g_Resource :: string

text \<open>An error of the API machinery: its text, and whether \<^verbatim>\<open>apierrors.IsNotFound\<close> holds of it.\<close>

record api_error =
  ae_text :: string
  ae_notfound :: bool

datatype mapping_error = NoMatch | MappingError string

record pod =
  p_Name :: string
  p_Namespace :: string
  p_NodeName :: string
  p_Annotations :: smap
  p_Owners :: "(string \<times> string) list" \<comment> \<open>kind and API version\<close>

text \<open>
  The calls that change the cluster. A namespace of \<open>None\<close> is the client of a cluster-scoped
  resource. \<open>'c\<close> is the type of loaded charts.
\<close>

datatype 'c write_call =
    Create gvr "string option" jobj
  | Update gvr "string option" jobj
  | Patch gvr "string option" string string bytes \<comment> \<open>name, patch type, body\<close>
  | Delete gvr "string option" string
  | NodePatch string bytes
  | Evict string string \<comment> \<open>namespace and name\<close>
  | HelmInstall string string 'c jobj \<comment> \<open>namespace, release, chart, values\<close>
  | HelmUpgrade string string 'c jobj
  | HelmUninstall string string

datatype 'c effect =
    EReport string string string int \<comment> \<open>status, message, diff, progress\<close>
  | EMetric string string \<comment> \<open>verb and result\<close>
  | EDrain string int
  | EDrainClear string
  | EGet gvr "string option" string "api_error + jobj"
  | ENode string "api_error option"
  | EPods string "api_error + pod list"
  | ENow int
  | EWait "string option"
  | ECall bool "'c write_call" "api_error option" \<comment> \<open>dry run, call, outcome\<close>
  | EPanic
  | EFuel \<comment> \<open>the bound on retries was reached\<close>

text \<open>
  The executor: its configuration, and as arguments everything it calls outside the repository. A
  reader passes the world on, a clock reading or a wait may change it.
\<close>

record ('w, 'c, 'q) executor =
  ex_cfg :: config
  ex_U :: unstr
  ex_Q :: "'q quantities"
  ex_yaml_read :: "bytes \<Rightarrow> (string + bytes) list" \<comment> \<open>the results of \<^verbatim>\<open>Read\<close> until the end of input\<close>
  ex_yaml_unmarshal :: "bytes \<Rightarrow> string + jobj"
  ex_gv_string :: "string \<Rightarrow> string \<Rightarrow> string"
  ex_mapper :: bool \<comment> \<open>a REST mapper is available\<close>
  ex_mapping :: "string \<Rightarrow> string \<Rightarrow> string \<Rightarrow> 'w \<Rightarrow> (mapping_error + gvr \<times> bool) \<times> 'w"
  ex_get :: "gvr \<Rightarrow> string option \<Rightarrow> string \<Rightarrow> 'w \<Rightarrow> (api_error + jobj) \<times> 'w"
  ex_node :: "string \<Rightarrow> 'w \<Rightarrow> api_error option \<times> 'w"
  ex_pods :: "string \<Rightarrow> 'w \<Rightarrow> (api_error + pod list) \<times> 'w"
  ex_write :: "bool \<Rightarrow> 'c write_call \<Rightarrow> 'w \<Rightarrow> api_error option \<times> 'w"
  ex_now :: "'w \<Rightarrow> int \<times> 'w"
  ex_wait :: "'w \<Rightarrow> string option \<times> 'w" \<comment> \<open>two seconds, or the error of the cancelled context\<close>
  ex_helm_init :: "string \<Rightarrow> 'w \<Rightarrow> (string + bool) \<times> 'w" \<comment> \<open>whether a registry client is set\<close>
  ex_registry :: "'w \<Rightarrow> string option \<times> 'w"
  ex_helm_values :: "bytes \<Rightarrow> string + jobj"
  ex_helm_status :: "string \<Rightarrow> string \<Rightarrow> 'w \<Rightarrow> string option \<times> 'w"
  ex_stat :: "string \<Rightarrow> 'w \<Rightarrow> bool \<times> 'w"
  ex_load :: "string \<Rightarrow> 'w \<Rightarrow> (string + 'c) \<times> 'w"
  ex_locate :: "string \<Rightarrow> string \<Rightarrow> 'w \<Rightarrow> (string + string) \<times> 'w"

record ('w, 'c) est =
  es_w :: 'w
  es_trace :: "'c effect list"

type_synonym ('w, 'c, 'a) act = "(('w, 'c) est, 'a) state"

section \<open>Actions\<close>

definition emit :: "'c effect \<Rightarrow> ('w, 'c, unit) act" where
  "emit e = State (\<lambda>s. ((), s\<lparr>es_trace := es_trace s @ [e]\<rparr>))"

definition ask :: "('w \<Rightarrow> 'a \<times> 'w) \<Rightarrow> ('w, 'c, 'a) act" where
  "ask f = State (\<lambda>s. let (x, w) = f (es_w s) in (x, s\<lparr>es_w := w\<rparr>))"

definition ask_as :: "('a \<Rightarrow> 'c effect) \<Rightarrow> ('w \<Rightarrow> 'a \<times> 'w) \<Rightarrow> ('w, 'c, 'a) act" where
  "ask_as ev f = do { x \<leftarrow> ask f; _ \<leftarrow> emit (ev x); State_Monad.return x }"

definition api_get :: "('w, 'c, 'q) executor \<Rightarrow> gvr \<Rightarrow> string option \<Rightarrow> string \<Rightarrow> ('w, 'c, api_error + jobj) act" where
  "api_get e g ns name = ask_as (EGet g ns name) (ex_get e g ns name)"

definition api_write :: "('w, 'c, 'q) executor \<Rightarrow> bool \<Rightarrow> 'c write_call \<Rightarrow> ('w, 'c, api_error option) act" where
  "api_write e dry c = ask_as (ECall dry c) (ex_write e dry c)"

definition node_get :: "('w, 'c, 'q) executor \<Rightarrow> string \<Rightarrow> ('w, 'c, api_error option) act" where
  "node_get e n = ask_as (ENode n) (ex_node e n)"

definition pod_list :: "('w, 'c, 'q) executor \<Rightarrow> string \<Rightarrow> ('w, 'c, api_error + pod list) act" where
  "pod_list e sel = ask_as (EPods sel) (ex_pods e sel)"

definition clock :: "('w, 'c, 'q) executor \<Rightarrow> ('w, 'c, int) act" where
  "clock e = ask_as ENow (ex_now e)"

definition wait2 :: "('w, 'c, 'q) executor \<Rightarrow> ('w, 'c, string option) act" where
  "wait2 e = ask_as EWait (ex_wait e)"

definition report_of :: "string \<Rightarrow> string \<Rightarrow> ('w, 'c, unit) act" where
  "report_of status msg = emit (EReport status msg '''' 0)"

definition report_progress :: "string \<Rightarrow> int \<Rightarrow> ('w, 'c, unit) act" where
  "report_progress msg pct = emit (EReport StatusProgress msg '''' pct)"

section \<open>Trace specifications\<close>

definition emits :: "('w, 'c, 'a) act \<Rightarrow> ('a \<Rightarrow> 'c effect list \<Rightarrow> bool) \<Rightarrow> bool" where
  "emits m Q \<longleftrightarrow>
     (\<forall>s. \<exists>t. es_trace (snd (run_state m s)) = es_trace s @ t \<and> Q (fst (run_state m s)) t)"

text \<open>The trace of a run that starts with an empty one.\<close>

definition run_trace :: "('w, 'c, 'a) act \<Rightarrow> 'w \<Rightarrow> 'c effect list" where
  "run_trace m w = es_trace (snd (run_state m \<lparr>es_w = w, es_trace = []\<rparr>))"

lemma emits_run_trace: "emits m (\<lambda>_ t. Q t) \<Longrightarrow> Q (run_trace m w)"
  unfolding emits_def run_trace_def by (metis append_Nil est.select_convs(2))

lemma emits_conseq: "emits m P \<Longrightarrow> (\<And>x t. P x t \<Longrightarrow> Q x t) \<Longrightarrow> emits m Q"
  unfolding emits_def by blast

lemma emits_return [trace_rules]: "Q x [] \<Longrightarrow> emits (State_Monad.return x) Q"
  by (simp add: emits_def)

lemma emits_bind [trace_rules]:
  "emits m (\<lambda>x t. emits (f x) (\<lambda>y u. Q y (t @ u))) \<Longrightarrow> emits (State_Monad.bind m f) Q"
  unfolding emits_def
proof
  fix s
  assume *: "\<forall>s. \<exists>t. es_trace (snd (run_state m s)) = es_trace s @ t \<and>
     (\<forall>s'. \<exists>u. es_trace (snd (run_state (f (fst (run_state m s))) s')) = es_trace s' @ u \<and>
        Q (fst (run_state (f (fst (run_state m s))) s')) (t @ u))"
  then obtain t where t: "es_trace (snd (run_state m s)) = es_trace s @ t"
    and f: "\<forall>s'. \<exists>u. es_trace (snd (run_state (f (fst (run_state m s))) s')) = es_trace s' @ u \<and>
        Q (fst (run_state (f (fst (run_state m s))) s')) (t @ u)" by blast
  from f obtain u where "es_trace (snd (run_state (f (fst (run_state m s))) (snd (run_state m s)))) =
      es_trace (snd (run_state m s)) @ u"
    "Q (fst (run_state (f (fst (run_state m s))) (snd (run_state m s)))) (t @ u)" by blast
  with t show "\<exists>t. es_trace (snd (run_state (State_Monad.bind m f) s)) = es_trace s @ t \<and>
      Q (fst (run_state (State_Monad.bind m f) s)) t"
    by (auto simp: split_def)
qed

lemma emits_emit [trace_rules]: "Q () [e] \<Longrightarrow> emits (emit e) Q"
  by (simp add: emits_def emit_def)

lemma emits_ask [trace_rules]: "(\<And>x. Q x []) \<Longrightarrow> emits (ask f) Q"
  by (simp add: emits_def ask_def split_def Let_def)

lemma emits_ask_as [trace_rules]: "(\<And>x. Q x [ev x]) \<Longrightarrow> emits (ask_as ev f) Q"
  unfolding ask_as_def by (intro trace_rules) simp

lemma emits_if [trace_rules]:
  "(b \<Longrightarrow> emits m Q) \<Longrightarrow> (\<not> b \<Longrightarrow> emits n Q) \<Longrightarrow> emits (if b then m else n) Q"
  by simp

lemma emits_option [trace_rules]:
  "(x = None \<Longrightarrow> emits m Q) \<Longrightarrow> (\<And>y. x = Some y \<Longrightarrow> emits (f y) Q) \<Longrightarrow>
   emits (case x of None \<Rightarrow> m | Some y \<Rightarrow> f y) Q"
  by (cases x) simp_all

lemma emits_sum [trace_rules]:
  "(\<And>y. x = Inl y \<Longrightarrow> emits (g y) Q) \<Longrightarrow> (\<And>y. x = Inr y \<Longrightarrow> emits (f y) Q) \<Longrightarrow>
   emits (case x of Inl y \<Rightarrow> g y | Inr y \<Rightarrow> f y) Q"
  by (cases x) simp_all

lemma emits_let [trace_rules]: "(\<And>x. x = v \<Longrightarrow> emits (f x) Q) \<Longrightarrow> emits (let x = v in f x) Q"
  by simp

lemma emits_list [trace_rules]:
  "(x = [] \<Longrightarrow> emits m Q) \<Longrightarrow> (\<And>y ys. x = y # ys \<Longrightarrow> emits (f y ys) Q) \<Longrightarrow>
   emits (case x of [] \<Rightarrow> m | y # ys \<Rightarrow> f y ys) Q"
  by (cases x) simp_all

lemma emits_prod [trace_rules]:
  "(\<And>a b. x = (a, b) \<Longrightarrow> emits (f a b) Q) \<Longrightarrow> emits (case x of (a, b) \<Rightarrow> f a b) Q"
  by (cases x) simp

lemma emits_known [trace_consts]:
  "emits m Q \<Longrightarrow> emits (case None of None \<Rightarrow> m | Some y \<Rightarrow> f y) Q"
  "emits (f y') Q \<Longrightarrow> emits (case Some y' of None \<Rightarrow> m | Some y \<Rightarrow> f y) Q"
  "emits (g z') Q \<Longrightarrow> emits (case Inl z' of Inl z \<Rightarrow> g z | Inr y \<Rightarrow> f y) Q"
  "emits (f y') Q \<Longrightarrow> emits (case Inr y' of Inl z \<Rightarrow> g z | Inr y \<Rightarrow> f y) Q"
  "emits n Q \<Longrightarrow> emits (if \<not> True then m else n) Q"
  "emits m Q \<Longrightarrow> emits (if \<not> False then m else n) Q"
  "emits (h a b) Q \<Longrightarrow> emits (case (a, b) of (x, y) \<Rightarrow> h x y) Q"
  by simp_all

lemmas action_defs = api_get_def api_write_def node_get_def pod_list_def clock_def wait2_def
  report_of_def report_progress_def

end
