(* ===== verification/Informers.thy ===== *)
theory Informers
  imports Uploader Exec_Monad
begin

text \<open>
  The package \<^verbatim>\<open>internal/informers\<close>: the table of resources that can be watched, the conversion of a cached
  object to an inventory event with the stripping of Secrets, and the manager. The shared informers
  belong to client-go: their caches, their sync state, the discovery and the registration of a handler are
  arguments, and a notification is a call of \<open>notify\<close>.
\<close>

section \<open>Watched resources (resources.go)\<close>

record watched_resource =
  w_GVR :: gvr
  w_Namespaced :: bool
  w_Secret :: bool

definition mk_gvr :: "string \<Rightarrow> string \<Rightarrow> string \<Rightarrow> gvr" where
  "mk_gvr grp version resource = \<lparr>g_Group = grp, g_Version = version, g_Resource = resource\<rparr>"

definition namespaced :: "string \<Rightarrow> string \<Rightarrow> string \<times> watched_resource" where
  "namespaced grp resource =
     (resource, \<lparr>w_GVR = mk_gvr grp ''v1'' resource, w_Namespaced = True, w_Secret = False\<rparr>)"

definition cluster_scoped :: "string \<Rightarrow> string \<Rightarrow> string \<times> watched_resource" where
  "cluster_scoped grp resource =
     (resource, \<lparr>w_GVR = mk_gvr grp ''v1'' resource, w_Namespaced = False, w_Secret = False\<rparr>)"

definition known :: "(string \<times> watched_resource) list" where
  "known =
     map (namespaced ''apps'') [''deployments'', ''statefulsets'', ''daemonsets'', ''replicasets''] @
     map (namespaced '''') [''pods'', ''services'', ''configmaps''] @
     [(''secrets'', \<lparr>w_GVR = mk_gvr '''' ''v1'' ''secrets'', w_Namespaced = True, w_Secret = True\<rparr>)] @
     map (cluster_scoped '''') [''nodes'', ''namespaces''] @
     map (namespaced '''') [''persistentvolumeclaims'', ''serviceaccounts''] @
     map (namespaced ''networking.k8s.io'') [''ingresses'', ''networkpolicies''] @
     map (namespaced ''rbac.authorization.k8s.io'') [''roles'', ''rolebindings''] @
     map (cluster_scoped ''rbac.authorization.k8s.io'') [''clusterroles'', ''clusterrolebindings''] @
     [namespaced ''policy'' ''poddisruptionbudgets''] @
     map (namespaced ''cert-manager.io'') [''certificates'', ''issuers''] @
     [cluster_scoped ''cert-manager.io'' ''clusterissuers'']"

definition knownNames :: "string list" where
  "knownNames = sort (map fst known)"

fun join_comma :: "string list \<Rightarrow> string" where
  "join_comma [] = []"
| "join_comma [x] = x"
| "join_comma (x # xs) = x @ '', '' @ join_comma xs"

fun Resolve :: "string list \<Rightarrow> string + watched_resource list" where
  "Resolve [] = Inr []"
| "Resolve (n # ns) =
     (case map_of known (ToLower (TrimSpace n)) of
        None \<Rightarrow> Inl (''unknown informer '' @ Quote n @ '' (known: '' @ join_comma knownNames @ '')'')
      | Some w \<Rightarrow> (case Resolve ns of Inl e \<Rightarrow> Inl e | Inr ws \<Rightarrow> Inr (w # ws)))"

section \<open>Events (manager.go)\<close>

text \<open>
  What an informer hands out: an unstructured object, the tombstone of an object whose deletion was
  missed, or something else (with the name of its Go type).
\<close>

datatype informer_obj = Obj jobj | Tombstone informer_obj | Other string

definition strings_json :: "smap option \<Rightarrow> json" where
  "strings_json m = (case m of None \<Rightarrow> JNull | Some a \<Rightarrow> JObj (of_strings a))"

definition data_keys :: "unstr \<Rightarrow> jobj \<Rightarrow> string list" where
  "data_keys U m =
     (case NestedStringMap U m [''data''] of
        (Some data, True, None) \<Rightarrow> map fst data
      | _ \<Rightarrow> (case NestedMap U m [''data''] of (Some raw, True) \<Rightarrow> map fst raw | _ \<Rightarrow> []))"

definition stripSecret :: "unstr \<Rightarrow> jobj \<Rightarrow> jobj" where
  "stripSecret U m =
     [(''apiVersion'', JStr (GetAPIVersion U m)),
      (''kind'', JStr (GetKind U m)),
      (''metadata'', JObj
        [(''name'', JStr (GetName U m)),
         (''namespace'', JStr (GetNamespace U m)),
         (''labels'', strings_json (GetLabels U m)),
         (''annotations'', strings_json (GetAnnotations U m)),
         (''creationTimestamp'', GetCreationTimestamp U m)]),
      (''type'', JStr (fst (NestedString U m [''type'']))),
      (''data'', JObj (map (\<lambda>k. (k, JStr '''')) (data_keys U m)))]"

definition toEvent ::
  "unstr \<Rightarrow> int \<Rightarrow> string \<Rightarrow> gvr \<Rightarrow> informer_obj \<Rightarrow> bool \<Rightarrow> string + inventory_event" where
  "toEvent U now op g obj secret =
     (case (case obj of Tombstone inner \<Rightarrow> inner | _ \<Rightarrow> obj) of
        Obj m \<Rightarrow>
          Inr \<lparr>ev_Op = op,
            ev_Ref = \<lparr>rr_Group = g_Group g, rr_Version = g_Version g, rr_Resource = g_Resource g,
                      rr_Namespace = GetNamespace U m, rr_Name = GetName U m\<rparr>,
            ev_ObjectJSON = Marshal (JObj (if secret then stripSecret U m else m)),
            ev_Timestamp = now_Unix now\<rparr>
      | Tombstone _ \<Rightarrow> Inl ''unexpected object type cache.DeletedFinalStateUnknown''
      | Other ty \<Rightarrow> Inl (''unexpected object type '' @ ty))"

section \<open>The manager\<close>

text \<open>
  \<open>mg_handlers\<close> are the registered handlers (one per entry of the configured list), \<open>mg_informers\<close> the map from a
  resource to its informer, here to the secret flag stored beside it.
\<close>

record manager =
  mg_handlers :: "watched_resource list"
  mg_informers :: "(gvr \<times> bool) list"
  mg_lastEvent :: "(string \<times> int) list"

definition group_version :: "gvr \<Rightarrow> string" where
  "group_version g = (if g_Group g = '''' then g_Version g else g_Group g @ ''/'' @ g_Version g)"

definition served :: "(string \<Rightarrow> string + string list) \<Rightarrow> watched_resource \<Rightarrow> bool" where
  "served disco w =
     (case disco (group_version (w_GVR w)) of Inl _ \<Rightarrow> False | Inr names \<Rightarrow> g_Resource (w_GVR w) \<in> set names)"

definition manager_add ::
  "(string \<Rightarrow> string + string list) \<Rightarrow> (gvr \<Rightarrow> string option) \<Rightarrow> int \<Rightarrow> watched_resource \<Rightarrow> manager \<Rightarrow> manager" where
  "manager_add disco register now w m =
     (if \<not> served disco w \<or> register (w_GVR w) \<noteq> None then m
      else m\<lparr>mg_handlers := mg_handlers m @ [w],
             mg_informers := AList.update (w_GVR w) (w_Secret w) (mg_informers m),
             mg_lastEvent := AList.update (g_Resource (w_GVR w)) now (mg_lastEvent m)\<rparr>)"

definition manager_New ::
  "(string \<Rightarrow> string + string list) \<Rightarrow> (gvr \<Rightarrow> string option) \<Rightarrow> int \<Rightarrow> watched_resource list \<Rightarrow> manager" where
  "manager_New disco register now resources =
     fold (manager_add disco register now) resources \<lparr>mg_handlers = [], mg_informers = [], mg_lastEvent = []\<rparr>"

definition handle ::
  "unstr \<Rightarrow> int \<Rightarrow> fs_io \<Rightarrow> string \<Rightarrow> informer_obj \<Rightarrow> watched_resource \<Rightarrow> manager \<times> uploader \<times> disk \<Rightarrow>
   manager \<times> uploader \<times> disk" where
  "handle U now io op obj w = (\<lambda>(m, sink).
     case toEvent U now op (w_GVR w) obj (w_Secret w) of
       Inl _ \<Rightarrow> (m, sink)
     | Inr ev \<Rightarrow>
         (m\<lparr>mg_lastEvent := AList.update (g_Resource (w_GVR w)) now (mg_lastEvent m)\<rparr>, Enqueue io ev sink))"

text \<open>A notification of the informer of \<open>g\<close> calls every handler registered for it.\<close>

definition notify ::
  "unstr \<Rightarrow> int \<Rightarrow> fs_io \<Rightarrow> string \<Rightarrow> gvr \<Rightarrow> informer_obj \<Rightarrow> manager \<times> uploader \<times> disk \<Rightarrow>
   manager \<times> uploader \<times> disk" where
  "notify U now io op g obj s =
     fold (handle U now io op obj) (filter (\<lambda>w. w_GVR w = g) (mg_handlers (fst s))) s"

definition HasSynced :: "(gvr \<Rightarrow> bool) \<Rightarrow> manager \<Rightarrow> bool" where
  "HasSynced synced m \<longleftrightarrow> mg_informers m \<noteq> [] \<and> list_all (\<lambda>(g, _). synced g) (mg_informers m)"

definition Snapshot :: "unstr \<Rightarrow> int \<Rightarrow> (gvr \<Rightarrow> informer_obj list) \<Rightarrow> manager \<Rightarrow> inventory_event list" where
  "Snapshot U now store m =
     concat (map (\<lambda>(g, secret).
       List.map_filter (\<lambda>obj. case toEvent U now OpSync g obj secret of Inl _ \<Rightarrow> None | Inr ev \<Rightarrow> Some ev) (store g))
       (mg_informers m))"

definition observeLag :: "int \<Rightarrow> manager \<Rightarrow> metrics \<Rightarrow> metrics" where
  "observeLag now m ms = fold (\<lambda>(resource, t). ObserveCacheSyncLag resource (now - t)) (mg_lastEvent m) ms"

text \<open>
  \<^verbatim>\<open>Run\<close> up to the end of its context: nothing without informers or when the context ends before the caches have
  synced, and otherwise one report of the lags per tick of its timer; \<open>ticks\<close> gives the time and the
  manager's state at each.
\<close>

definition manager_Run :: "bool \<Rightarrow> (int \<times> manager) list \<Rightarrow> manager \<Rightarrow> metrics \<Rightarrow> metrics" where
  "manager_Run synced_in_time ticks m ms =
     (if mg_informers m = [] \<or> \<not> synced_in_time then ms
      else fold (\<lambda>(now, m'). observeLag now m') ticks ms)"

section \<open>Facts\<close>

lemma known_secret: "map_of known k = Some w \<Longrightarrow> w_Secret w \<longleftrightarrow> w_GVR w = mk_gvr '''' ''v1'' ''secrets''"
proof -
  have "\<forall>p \<in> set known. w_Secret (snd p) \<longleftrightarrow> w_GVR (snd p) = mk_gvr '''' ''v1'' ''secrets''"
    by (simp add: known_def namespaced_def cluster_scoped_def mk_gvr_def)
  then show "map_of known k = Some w \<Longrightarrow> w_Secret w \<longleftrightarrow> w_GVR w = mk_gvr '''' ''v1'' ''secrets''"
    using map_of_SomeD by fastforce
qed

lemma Resolve_known: "Resolve names = Inr ws \<Longrightarrow> w \<in> set ws \<Longrightarrow> \<exists>k. map_of known k = Some w"
  by (induction names arbitrary: ws) (auto split: option.splits sum.splits)

text \<open>The handlers and the flags beside the informers agree with the watched resources.\<close>

definition flags_ok :: "manager \<Rightarrow> bool" where
  "flags_ok m \<longleftrightarrow>
     (\<forall>w \<in> set (mg_handlers m). w_Secret w \<longleftrightarrow> w_GVR w = mk_gvr '''' ''v1'' ''secrets'') \<and>
     (\<forall>(g, s) \<in> set (mg_informers m). s \<longleftrightarrow> g = mk_gvr '''' ''v1'' ''secrets'')"

lemma manager_add_flags:
  assumes "flags_ok m" "w_Secret w \<longleftrightarrow> w_GVR w = mk_gvr '''' ''v1'' ''secrets''"
  shows "flags_ok (manager_add disco register now w m)"
proof -
  have "set (AList.update k v xs) \<subseteq> insert (k, v) (set xs)" for k v and xs :: "(gvr \<times> bool) list"
    by (induction xs) auto
  then show ?thesis using assms by (fastforce simp: flags_ok_def manager_add_def)
qed

lemma manager_New_flags:
  assumes "Resolve names = Inr ws"
  shows "flags_ok (manager_New disco register now ws)"
proof -
  have "flags_ok (fold (manager_add disco register now) vs m)" if "flags_ok m" "set vs \<subseteq> set ws" for vs m
    using that
  proof (induction vs arbitrary: m)
    case (Cons v vs)
    then have "v \<in> set ws" by simp
    then obtain k where "map_of known k = Some v" using Resolve_known [OF assms] by blast
    then have "w_Secret v \<longleftrightarrow> w_GVR v = mk_gvr '''' ''v1'' ''secrets''" by (rule known_secret)
    with Cons.prems(1) have "flags_ok (manager_add disco register now v m)" by (rule manager_add_flags)
    then show ?case using Cons.IH Cons.prems(2) by simp
  qed simp
  moreover have "flags_ok \<lparr>mg_handlers = [], mg_informers = [], mg_lastEvent = []\<rparr>" by (simp add: flags_ok_def)
  ultimately show ?thesis unfolding manager_New_def by blast
qed

lemma Marshal_data_cong:
  assumes "distinct ks" "distinct ks'" "set ks = set ks'"
  shows "Marshal (JObj (map (\<lambda>k. (k, JStr '''')) ks)) = Marshal (JObj (map (\<lambda>k. (k, JStr '''')) ks'))"
proof -
  have "map_of (map (\<lambda>k. (k, JStr '''')) xs) k = (if k \<in> set xs then Some (JStr '''') else None)" for xs :: "string list" and k
    by (induction xs) auto
  then have "obj_get (map (\<lambda>k. (k, JStr '''')) ks) = obj_get (map (\<lambda>k. (k, JStr '''')) ks')"
    using assms(3) by (simp add: fun_eq_iff)
  then show ?thesis using assms by (intro Marshal_cong) (simp_all add: comp_def)
qed

section \<open>Properties\<close>

text \<open>
  What the stripping relies on of the accessors: the metadata accessors read nothing but the metadata, the kind
  and the API version, and the map accessors return the map at the key (the one for string maps
  fails on another value in it).
\<close>

definition metadata_law :: "unstr \<Rightarrow> bool" where
  "metadata_law U \<longleftrightarrow>
     (\<forall>m m'. obj_get m ''metadata'' = obj_get m' ''metadata'' \<and> obj_get m ''kind'' = obj_get m' ''kind'' \<and>
        obj_get m ''apiVersion'' = obj_get m' ''apiVersion'' \<longrightarrow>
        GetAPIVersion U m = GetAPIVersion U m' \<and> GetKind U m = GetKind U m' \<and> GetName U m = GetName U m' \<and>
        GetNamespace U m = GetNamespace U m' \<and> GetLabels U m = GetLabels U m' \<and>
        GetAnnotations U m = GetAnnotations U m' \<and> GetCreationTimestamp U m = GetCreationTimestamp U m')"

definition nested_map_law :: "unstr \<Rightarrow> bool" where
  "nested_map_law U \<longleftrightarrow>
     (\<forall>m k a. obj_get m k = Some (JObj a) \<longrightarrow>
        NestedMap U m [k] = (Some a, True) \<and>
        (case to_strings a of
           Some s \<Rightarrow> NestedStringMap U m [k] = (Some s, True, None)
         | None \<Rightarrow> snd (snd (NestedStringMap U m [k])) \<noteq> None))"

lemma json_at_cong: "obj_get m k = obj_get m' k \<Longrightarrow> json_at (k # ks) m = json_at (k # ks) m'"
  by (cases ks) (auto simp: obj_map_def)

lemma ref_informer_laws: "metadata_law ref_unstr" "nested_map_law ref_unstr"
proof -
  show "metadata_law ref_unstr"
    unfolding metadata_law_def
  proof (intro allI impI)
    fix m m' :: jobj
    assume "obj_get m ''metadata'' = obj_get m' ''metadata'' \<and> obj_get m ''kind'' = obj_get m' ''kind'' \<and>
      obj_get m ''apiVersion'' = obj_get m' ''apiVersion''"
    then have "json_at (''metadata'' # ks) m = json_at (''metadata'' # ks) m'" "json_at [''kind''] m = json_at [''kind''] m'"
      "json_at [''apiVersion''] m = json_at [''apiVersion''] m'" for ks
      using json_at_cong by blast+
    then show "GetAPIVersion ref_unstr m = GetAPIVersion ref_unstr m' \<and> GetKind ref_unstr m = GetKind ref_unstr m' \<and>
        GetName ref_unstr m = GetName ref_unstr m' \<and> GetNamespace ref_unstr m = GetNamespace ref_unstr m' \<and>
        GetLabels ref_unstr m = GetLabels ref_unstr m' \<and> GetAnnotations ref_unstr m = GetAnnotations ref_unstr m' \<and>
        GetCreationTimestamp ref_unstr m = GetCreationTimestamp ref_unstr m'"
      unfolding ref_unstr_def ref_string_def ref_strings_def unstr.select_convs by presburger
  qed
  show "nested_map_law ref_unstr"
    by (simp add: nested_map_law_def ref_unstr_def ref_strings_def split: option.splits)
qed

lemma data_keys_map:
  assumes "nested_map_law U" "obj_get m ''data'' = Some (JObj a)"
  shows "data_keys U m = map fst a"
proof (cases "to_strings a")
  case (Some s)
  then have "NestedStringMap U m [''data''] = (Some s, True, None)"
    using assms unfolding nested_map_law_def by fastforce
  then show ?thesis using to_strings_Some [OF Some] by (simp add: data_keys_def of_strings_def comp_def split_def)
next
  case None
  then have "snd (snd (NestedStringMap U m [''data''])) \<noteq> None" "NestedMap U m [''data''] = (Some a, True)"
    using assms unfolding nested_map_law_def by fastforce+
  then show ?thesis by (auto simp: data_keys_def split: prod.splits option.splits bool.splits)
qed

text \<open>
  C17. The values of a Secret do not influence what leaves the cluster: two Secrets that agree in
  everything but the values under \<^verbatim>\<open>data\<close> (same keys) and the whole of \<^verbatim>\<open>stringData\<close> give the same inventory event.
  (Annotations are passed on as they are.)
\<close>

theorem secret_values_hidden:
  assumes "metadata_law U" "nested_map_law U" "nested_string_law U"
    and "distinct (map fst d)" "distinct (map fst d')" "fst ` set d = fst ` set d'"
  shows "toEvent U now op g (Obj (obj_put ''stringData'' v (obj_put ''data'' (JObj d) m))) True =
    toEvent U now op g (Obj (obj_put ''stringData'' v' (obj_put ''data'' (JObj d') m))) True"
proof -
  let ?a = "obj_put ''stringData'' v (obj_put ''data'' (JObj d) m)"
  let ?b = "obj_put ''stringData'' v' (obj_put ''data'' (JObj d') m)"
  have same: "obj_get ?a k = obj_get ?b k" if "k \<notin> {''data'', ''stringData''}" for k
    using that by (simp add: obj_get_put)
  then have acc: "GetAPIVersion U ?a = GetAPIVersion U ?b" "GetKind U ?a = GetKind U ?b" "GetName U ?a = GetName U ?b"
      "GetNamespace U ?a = GetNamespace U ?b" "GetLabels U ?a = GetLabels U ?b"
      "GetAnnotations U ?a = GetAnnotations U ?b" "GetCreationTimestamp U ?a = GetCreationTimestamp U ?b"
    using assms(1) [unfolded metadata_law_def, rule_format, of ?a ?b] by auto
  have ty: "fst (NestedString U ?a [''type'']) = fst (NestedString U ?b [''type''])"
    using assms(3) same [of "''type''"] unfolding nested_string_law_def by simp
  have "data_keys U ?a = map fst d" "data_keys U ?b = map fst d'"
    using data_keys_map [OF assms(2)] by (simp_all add: obj_get_put)
  then have "Marshal (JObj (map (\<lambda>k. (k, JStr '''')) (data_keys U ?a))) =
      Marshal (JObj (map (\<lambda>k. (k, JStr '''')) (data_keys U ?b)))"
    using assms(4-6) by (intro Marshal_data_cong) auto
  then have "Marshal (JObj (stripSecret U ?a)) = Marshal (JObj (stripSecret U ?b))"
    unfolding stripSecret_def acc ty Marshal.simps(6) list.map prod.case by simp
  then show ?thesis by (simp add: toEvent_def acc)
qed

theorem secret_values_hidden_witness:
  "let secret = (\<lambda>d v. Obj (obj_put ''stringData'' v (obj_put ''data'' (JObj d)
         [(''kind'', JStr ''Secret''), (''metadata'', JObj [(''name'', JStr ''db'')])])))
   in toEvent ref_unstr 0 OpSync (mk_gvr '''' ''v1'' ''secrets'')
        (secret [(''password'', JStr ''aHVudGVyMg''), (''user'', JStr ''cm9vdA'')] JNull) True =
      toEvent ref_unstr 0 OpSync (mk_gvr '''' ''v1'' ''secrets'')
        (secret [(''user'', JStr ''''), (''password'', JNum ''7'')] (JObj [(''token'', JStr ''t'')])) True"
  unfolding Let_def
  by (rule secret_values_hidden [OF ref_informer_laws ref_laws(2)]) auto

text \<open>An event carries the stripped object when it is about a Secret, and the object itself otherwise.\<close>

definition about_secret :: "inventory_event \<Rightarrow> bool" where
  "about_secret ev \<longleftrightarrow> rr_Group (ev_Ref ev) = '''' \<and> rr_Version (ev_Ref ev) = ''v1'' \<and> rr_Resource (ev_Ref ev) = ''secrets''"

definition stripped_event :: "unstr \<Rightarrow> inventory_event \<Rightarrow> bool" where
  "stripped_event U ev \<longleftrightarrow>
     (\<exists>m. ev_ObjectJSON ev = Marshal (JObj (if about_secret ev then stripSecret U m else m)))"

lemma toEvent_stripped:
  assumes "toEvent U now op g obj s = Inr ev" "s \<longleftrightarrow> g = mk_gvr '''' ''v1'' ''secrets''"
  shows "stripped_event U ev"
proof -
  have "g = mk_gvr '''' ''v1'' ''secrets'' \<longleftrightarrow> g_Group g = '''' \<and> g_Version g = ''v1'' \<and> g_Resource g = ''secrets''"
    by (cases g) (auto simp: mk_gvr_def)
  then show ?thesis
    using assms by (auto simp: toEvent_def stripped_event_def about_secret_def split: informer_obj.splits)
qed


definition secrets_watch :: watched_resource where
  "secrets_watch = \<lparr>w_GVR = mk_gvr '''' ''v1'' ''secrets'', w_Namespaced = True, w_Secret = True\<rparr>"

definition secrets_manager :: manager where
  "secrets_manager = manager_New (\<lambda>_. Inr [''secrets'']) (\<lambda>_. None) 0 [secrets_watch]"

definition secrets_store :: "gvr \<Rightarrow> informer_obj list" where
  "secrets_store g = [Obj [(''data'', JObj [(''k'', JStr ''v'')])]]"

lemma Resolve_secrets: "Resolve [''secrets''] = Inr [secrets_watch]"
proof -
  have "ToLower (TrimSpace ''secrets'') = ''secrets''"
    by (rule ToLower_TrimSpace) (simp add: lower_letter_def)
  then show ?thesis
    by (simp add: known_def namespaced_def cluster_scoped_def secrets_watch_def)
qed


end
