(* ===== verification/Receiver.thy ===== *)
theory Receiver
  imports Caches Metrics "HOL-Library.Sublist"
begin

text \<open>
  The package \<^verbatim>\<open>internal/receiver\<close>: the verification pipeline every command passes, whichever
  channel brought it, the delivery of reports over the socket or the poll queue, and the poll loop.
  The loop and the socket's read loop run concurrently; their interleaving is a step relation whose
  steps are the calls of \<^verbatim>\<open>process\<close>, the two halves of a poll (the queue is snapshotted when the
  request is built and cleared when the response is there) and the reports of running handlers.
  Ed25519 verification, the clock and the state of the socket are parameters.
\<close>

section \<open>State\<close>

abbreviation maxNonces :: nat where "maxNonces \<equiv> 10000"
abbreviation maxIDs :: nat where "maxIDs \<equiv> 10000"
abbreviation maxClockSkew :: duration where "maxClockSkew \<equiv> 5 * Minute"
abbreviation maxQueuedReports :: nat where "maxQueuedReports \<equiv> 1000"
abbreviation agentVersion :: string where "agentVersion \<equiv> ''dev''"

text \<open>
  Besides the fields of the source, the record keeps what the receiver did to the outside: the
  goroutines it started (with the clock reading that admitted the command), the reports written to
  the socket, and for the statements about delivery the reports handed to \<^verbatim>\<open>deliverReport\<close>, those the
  full queue dropped, and the ids and nonces that were recorded as new. \<open>rc_alloc\<close> is the next free
  heap address.
\<close>

record receiver =
  rc_cfg :: config
  rc_pub :: "config_error + bytes"
  rc_push :: bool
  rc_nonces :: nonce_cache
  rc_ids :: nonce_cache
  rc_queue :: report_queue
  rc_metrics :: metrics
  rc_alloc :: nat
  rc_dispatched :: "(int \<times> command) list"
  rc_wire :: "report list"
  rc_delivered :: "report_ptr list"
  rc_dropped :: "report_ptr list"
  rc_id_history :: "string list"
  rc_nonce_history :: "string list"

definition receiver_New :: "config \<Rightarrow> bool \<Rightarrow> receiver" where
  "receiver_New cfg push =
     \<lparr> rc_cfg = cfg, rc_pub = PublicKey cfg, rc_push = push,
       rc_nonces = newNonceCache maxNonces, rc_ids = newNonceCache maxIDs,
       rc_queue = newReportQueue maxQueuedReports, rc_metrics = metrics_init, rc_alloc = 0,
       rc_dispatched = [], rc_wire = [], rc_delivered = [], rc_dropped = [],
       rc_id_history = [], rc_nonce_history = [] \<rparr>"

section \<open>Operations\<close>

definition isTerminal :: "string \<Rightarrow> bool" where
  "isTerminal status \<longleftrightarrow> status \<in> {StatusSucceeded, StatusFailed, StatusRefused}"

text \<open>
  The socket as seen by one delivery: \<open>None\<close> when it is not connected, otherwise whether the write
  of a report succeeds.
\<close>

type_synonym push_state = "(report \<Rightarrow> bool) option"

definition deliverReport :: "push_state \<Rightarrow> report \<Rightarrow> receiver \<Rightarrow> receiver" where
  "deliverReport push rep r =
     (let sent = (rc_push r \<and> (case push of None \<Rightarrow> False | Some send \<Rightarrow> send rep));
          ptr = (rc_alloc r, rep);
          r1 = r\<lparr>rc_alloc := Suc (rc_alloc r), rc_delivered := rc_delivered r @ [ptr],
                 rc_wire := (if sent then rc_wire r @ [rep] else rc_wire r)\<rparr>
      in if \<not> sent \<or> isTerminal (r_Status rep) then
           r1\<lparr>rc_dropped := rc_dropped r @
                 (if rq_len (rc_queue r) \<ge> rq_cap (rc_queue r) then take 1 (rq_ll (rc_queue r)) else []),
              rc_queue := rq_enqueue ptr (rc_queue r)\<rparr>
         else r1)"

definition newReport :: "receiver \<Rightarrow> command \<Rightarrow> string \<Rightarrow> string \<Rightarrow> int \<Rightarrow> report" where
  "newReport r cmd status msg now =
     \<lparr> r_ClusterID = ClusterID (rc_cfg r), r_CommandID = c_ID cmd, r_Status = status,
       r_Message = msg, r_Diff = '''', r_Progress = 0, r_Timestamp = now_Unix now \<rparr>"

definition pub_error_text :: "config_error \<Rightarrow> string" where
  "pub_error_text e =
     (case e of
        PublicKeyInvalid n \<Rightarrow>
          ''expected a 32-byte Ed25519 public key as base64 or hex (got '' @ dec_nat n @ '' chars)''
      | _ \<Rightarrow> '''')"

text \<open>
  \<open>validate\<close> returns the refusal reason, \<open>None\<close> for an accepted command. The checks stop at the first
  failure, so the nonce is recorded only for a command that passed all the others.
\<close>

definition receiver_validate ::
  "(bytes \<Rightarrow> bytes \<Rightarrow> bytes \<Rightarrow> bool) \<Rightarrow> int \<Rightarrow> command \<Rightarrow> receiver \<Rightarrow> string option \<times> receiver" where
  "receiver_validate verify now cmd r =
     (if \<not> WriterEnabled (rc_cfg r) then (Some ''writer disabled (read-only mode)'', r)
      else case rc_pub r of
        Inl e \<Rightarrow> (Some (''server public key misconfigured: '' @ pub_error_text e), r)
      | Inr pub \<Rightarrow>
          (case VerifySignature verify pub cmd of
             Some e \<Rightarrow> (Some (sig_error_text e), r)
           | None \<Rightarrow>
               (let skew = time_Since now (time_Unix (c_Timestamp cmd)) in
                if skew > maxClockSkew \<or> skew < - maxClockSkew then
                  (Some (''timestamp skew '' @ Duration_String (Round skew Second) @ '' exceeds '' @
                     Duration_String maxClockSkew), r)
                else
                  (let (replayed, nonces) = nonce_seen (c_Nonce cmd) (rc_nonces r);
                       r1 = r\<lparr>rc_nonces := nonces,
                              rc_nonce_history := rc_nonce_history r @
                                (if replayed then [] else [c_Nonce cmd])\<rparr>
                   in if replayed then (Some ''replayed nonce'', r1) else (None, r1)))))"

text \<open>What one call of \<open>process\<close> reads from outside: two clock readings and the socket.\<close>

record penv =
  pe_now :: int
  pe_stamp :: int
  pe_push :: push_state

definition process_cmd ::
  "(bytes \<Rightarrow> bytes \<Rightarrow> bytes \<Rightarrow> bool) \<Rightarrow> penv \<Rightarrow> command \<Rightarrow> receiver \<Rightarrow> receiver" where
  "process_cmd verify env cmd r =
     (let (dup, ids) = nonce_seen (c_ID cmd) (rc_ids r);
          r1 = r\<lparr>rc_ids := ids, rc_id_history := rc_id_history r @ (if dup then [] else [c_ID cmd])\<rparr>
      in if dup then r1
         else
           (let (reason, r2) = receiver_validate verify (pe_now env) cmd r1 in
            case reason of
              Some msg \<Rightarrow>
                deliverReport (pe_push env) (newReport r2 cmd StatusRefused msg (pe_stamp env))
                  (r2\<lparr>rc_metrics := IncCommand (c_Verb cmd) ''refused'' (rc_metrics r2)\<rparr>)
            | None \<Rightarrow>
                (let r3 = deliverReport (pe_push env)
                            (newReport r2 cmd StatusReceived '''' (pe_stamp env)) r2
                 in r3\<lparr>rc_dispatched := rc_dispatched r3 @ [(pe_now env, cmd)]\<rparr>)))"

text \<open>A nil command is dereferenced at once: the call panics, which the model shows as \<open>None\<close>.\<close>

definition process ::
  "(bytes \<Rightarrow> bytes \<Rightarrow> bytes \<Rightarrow> bool) \<Rightarrow> penv \<Rightarrow> command option \<Rightarrow> receiver \<Rightarrow> receiver option" where
  "process verify env ptr r =
     (case ptr of None \<Rightarrow> None | Some cmd \<Rightarrow> Some (process_cmd verify env cmd r))"

text \<open>The callback handed to the handler completes a report and delivers it.\<close>

definition handler_report ::
  "command \<Rightarrow> int \<Rightarrow> push_state \<Rightarrow> report \<Rightarrow> receiver \<Rightarrow> receiver" where
  "handler_report cmd now push rep r =
     deliverReport push
       (rep\<lparr>r_ClusterID := ClusterID (rc_cfg r), r_CommandID := c_ID cmd,
            r_Timestamp := now_Unix now\<rparr>) r"

section \<open>The poll loop\<close>

definition poll_request_of :: "receiver \<Rightarrow> poll_request" where
  "poll_request_of r =
     \<lparr>pq_ClusterID = ClusterID (rc_cfg r), pq_Version = agentVersion,
      pq_Reports = map snd (rq_snapshot (rc_queue r))\<rparr>"

fun process_all ::
  "(bytes \<Rightarrow> bytes \<Rightarrow> bytes \<Rightarrow> bool) \<Rightarrow> (penv \<times> command option) list \<Rightarrow> receiver \<Rightarrow> receiver option" where
  "process_all verify [] r = Some r"
| "process_all verify ((env, ptr) # cs) r =
     (case process verify env ptr r of None \<Rightarrow> None | Some r' \<Rightarrow> process_all verify cs r')"

text \<open>
  The system the loop runs in: the receiver, the reports of the request that is under way (if one
  is), the loop's backoff, and the reports of acknowledged requests.
\<close>

record poll_system =
  ps_r :: receiver
  ps_inflight :: "report_ptr list option"
  ps_bo :: backoff
  ps_acked :: "report_ptr list"

definition poll_init :: "config \<Rightarrow> bool \<Rightarrow> poll_system" where
  "poll_init cfg push =
     \<lparr>ps_r = receiver_New cfg push, ps_inflight = None,
      ps_bo = \<lparr>bo_d = 0, bo_authLogged = False\<rparr>, ps_acked = []\<rparr>"

text \<open>A failed poll: an authentication error is logged once per streak, then the loop backs off.\<close>

definition poll_error :: "post_error \<Rightarrow> rat \<Rightarrow> poll_system \<Rightarrow> duration \<times> poll_system" where
  "poll_error e rnd s =
     (let bo = (case e of AuthError _ _ \<Rightarrow> (ps_bo s)\<lparr>bo_authLogged := True\<rparr> | _ \<Rightarrow> ps_bo s);
          (d, bo') = backoff_next rnd bo
      in (d, s\<lparr>ps_bo := bo', ps_inflight := None\<rparr>))"

text \<open>A successful poll: reports are cleared only if the server said ok, then commands run.\<close>

definition poll_success ::
  "(bytes \<Rightarrow> bytes \<Rightarrow> bytes \<Rightarrow> bool) \<Rightarrow> bool \<Rightarrow> (penv \<times> command option) list \<Rightarrow> report_ptr list \<Rightarrow>
   poll_system \<Rightarrow> poll_system option" where
  "poll_success verify ok cmds sent s =
     (let r = ps_r s;
          r1 = (if ok then r\<lparr>rc_queue := rq_clearSent sent (rc_queue r)\<rparr> else r)
      in case process_all verify cmds r1 of
           None \<Rightarrow> None
         | Some r2 \<Rightarrow>
             Some (s\<lparr>ps_r := r2, ps_bo := backoff_reset (ps_bo s), ps_inflight := None,
                     ps_acked := (if ok then ps_acked s @ sent else ps_acked s)\<rparr>))"

inductive recv_io ::
  "(bytes \<Rightarrow> bytes \<Rightarrow> bytes \<Rightarrow> bool) \<Rightarrow> poll_system \<Rightarrow> poll_system \<Rightarrow> bool"
  for verify where
  poll_start: "ps_inflight s = None \<Longrightarrow>
     recv_io verify s (s\<lparr>ps_inflight := Some (rq_snapshot (rc_queue (ps_r s)))\<rparr>)"
| poll_failed: "ps_inflight s = Some sent \<Longrightarrow> 0 \<le> rnd \<Longrightarrow> rnd < 1 \<Longrightarrow>
     recv_io verify s (snd (poll_error e rnd s))"
| poll_ok: "ps_inflight s = Some sent \<Longrightarrow> poll_success verify ok cmds sent s = Some s' \<Longrightarrow>
     recv_io verify s s'"
| ws_command: "process verify env ptr (ps_r s) = Some r' \<Longrightarrow> recv_io verify s (s\<lparr>ps_r := r'\<rparr>)"

inductive recv_step ::
  "(bytes \<Rightarrow> bytes \<Rightarrow> bytes \<Rightarrow> bool) \<Rightarrow> poll_system \<Rightarrow> poll_system \<Rightarrow> bool"
  for verify where
  io: "recv_io verify s s' \<Longrightarrow> recv_step verify s s'"
| report: "(t, cmd) \<in> set (rc_dispatched (ps_r s)) \<Longrightarrow>
     recv_step verify s (s\<lparr>ps_r := handler_report cmd now push rep (ps_r s)\<rparr>)"

inductive recv_reachable ::
  "(bytes \<Rightarrow> bytes \<Rightarrow> bytes \<Rightarrow> bool) \<Rightarrow> config \<Rightarrow> bool \<Rightarrow> poll_system \<Rightarrow> bool"
  for verify cfg push where
  init: "recv_reachable verify cfg push (poll_init cfg push)"
| step: "recv_reachable verify cfg push s \<Longrightarrow> recv_step verify s s' \<Longrightarrow>
     recv_reachable verify cfg push s'"

section \<open>Invariants\<close>

text \<open>What a command must have satisfied at the clock reading that admitted it.\<close>

definition admitted ::
  "(bytes \<Rightarrow> bytes \<Rightarrow> bytes \<Rightarrow> bool) \<Rightarrow> config \<Rightarrow> int \<Rightarrow> command \<Rightarrow> bool" where
  "admitted verify cfg now cmd \<longleftrightarrow>
     WriterEnabled cfg \<and>
     (\<exists>pub. PublicKey cfg = Inr pub \<and> VerifySignature verify pub cmd = None) \<and>
     \<bar>time_Since now (time_Unix (c_Timestamp cmd))\<bar> \<le> maxClockSkew"

text \<open>The configuration never changes, the caches follow their histories, and dispatches are lawful.\<close>

definition core_inv ::
  "(bytes \<Rightarrow> bytes \<Rightarrow> bytes \<Rightarrow> bool) \<Rightarrow> config \<Rightarrow> receiver \<Rightarrow> bool" where
  "core_inv verify cfg r \<longleftrightarrow>
     rc_cfg r = cfg \<and> rc_pub r = PublicKey cfg \<and>
     nonces.tracks (rc_nonces r) (rc_nonce_history r) \<and> nc_cap (rc_nonces r) = maxNonces \<and>
     nonces.tracks (rc_ids r) (rc_id_history r) \<and> nc_cap (rc_ids r) = maxIDs \<and>
     (\<forall>(t, c) \<in> set (rc_dispatched r). admitted verify cfg t c) \<and>
     subseq (map (c_ID \<circ> snd) (rc_dispatched r)) (rc_id_history r) \<and>
     subseq (map (c_Nonce \<circ> snd) (rc_dispatched r)) (rc_nonce_history r)"

text \<open>
  Heap addresses are unique, the queue is bounded and holds delivered reports only, and a delivered
  terminal report is queued, acknowledged (\<open>A\<close>) or was dropped by a full queue.
\<close>

definition ptr_inv :: "report_ptr set \<Rightarrow> receiver \<Rightarrow> bool" where
  "ptr_inv A r \<longleftrightarrow>
     distinct (map fst (rc_delivered r)) \<and> (\<forall>p \<in> set (rc_delivered r). fst p < rc_alloc r) \<and>
     set (rq_ll (rc_queue r)) \<subseteq> set (rc_delivered r) \<and>
     rq_cap (rc_queue r) = maxQueuedReports \<and> rq_len (rc_queue r) \<le> maxQueuedReports \<and>
     (\<forall>p \<in> set (rc_delivered r). isTerminal (r_Status (snd p)) \<longrightarrow>
        p \<in> set (rq_ll (rc_queue r)) \<union> A \<union> set (rc_dropped r))"

definition sys_inv ::
  "(bytes \<Rightarrow> bytes \<Rightarrow> bytes \<Rightarrow> bool) \<Rightarrow> config \<Rightarrow> poll_system \<Rightarrow> bool" where
  "sys_inv verify cfg s \<longleftrightarrow>
     core_inv verify cfg (ps_r s) \<and> ptr_inv (set (ps_acked s)) (ps_r s) \<and>
     (case ps_inflight s of None \<Rightarrow> True | Some sent \<Rightarrow> set sent \<subseteq> set (rc_delivered (ps_r s)))"

lemma deliverReport_frame [simp]:
  "rc_cfg (deliverReport push rep r) = rc_cfg r"
  "rc_pub (deliverReport push rep r) = rc_pub r"
  "rc_nonces (deliverReport push rep r) = rc_nonces r"
  "rc_ids (deliverReport push rep r) = rc_ids r"
  "rc_dispatched (deliverReport push rep r) = rc_dispatched r"
  "rc_id_history (deliverReport push rep r) = rc_id_history r"
  "rc_nonce_history (deliverReport push rep r) = rc_nonce_history r"
  "rc_delivered (deliverReport push rep r) = rc_delivered r @ [(rc_alloc r, rep)]"
  by (simp_all add: deliverReport_def Let_def)

lemma core_inv_deliver [simp]:
  "core_inv verify cfg (deliverReport push rep r) \<longleftrightarrow> core_inv verify cfg r"
  by (simp add: core_inv_def)

lemma ptr_inv_frame [simp]:
  "ptr_inv A (r\<lparr>rc_nonces := x1\<rparr>) \<longleftrightarrow> ptr_inv A r"
  "ptr_inv A (r\<lparr>rc_nonce_history := x2\<rparr>) \<longleftrightarrow> ptr_inv A r"
  "ptr_inv A (r\<lparr>rc_ids := x1\<rparr>) \<longleftrightarrow> ptr_inv A r"
  "ptr_inv A (r\<lparr>rc_id_history := x2\<rparr>) \<longleftrightarrow> ptr_inv A r"
  "ptr_inv A (r\<lparr>rc_metrics := m\<rparr>) \<longleftrightarrow> ptr_inv A r"
  "ptr_inv A (r\<lparr>rc_dispatched := ds\<rparr>) \<longleftrightarrow> ptr_inv A r"
  by (simp_all add: ptr_inv_def)

lemma set_drop_one: "x \<in> set xs \<Longrightarrow> x \<in> set (tl xs) \<or> x \<in> set (take 1 xs)"
  by (cases xs) auto

lemma ptr_inv_deliver:
  assumes "ptr_inv A r"
  shows "ptr_inv A (deliverReport push rep r)"
proof -
  let ?r = "deliverReport push rep r"
  let ?q = "rq_ll (rc_queue r)"
  have addr: "distinct (map fst (rc_delivered ?r))" "\<forall>p \<in> set (rc_delivered ?r). fst p < rc_alloc ?r"
    using assms by (auto simp: ptr_inv_def deliverReport_def Let_def)
  have tl: "set (tl ?q) \<subseteq> set ?q" by (cases ?q) auto
  have "set (rq_ll (rc_queue ?r)) \<subseteq> set (rc_delivered ?r)"
    using assms tl by (auto simp: ptr_inv_def deliverReport_def Let_def rq_enqueue_def)
  moreover have "rq_cap (rc_queue ?r) = maxQueuedReports \<and> rq_len (rc_queue ?r) \<le> maxQueuedReports"
    using assms by (auto simp: ptr_inv_def deliverReport_def Let_def rq_enqueue_def rq_len_def)
  moreover have "p \<in> set (rq_ll (rc_queue ?r)) \<union> A \<union> set (rc_dropped ?r)"
    if p: "p \<in> set (rc_delivered ?r)" "isTerminal (r_Status (snd p))" for p
  proof (cases "p = (rc_alloc r, rep)")
    case True
    with p show ?thesis
      by (auto simp: deliverReport_def Let_def rq_enqueue_def)
  next
    case False
    with p assms have "p \<in> set ?q \<union> A \<union> set (rc_dropped r)"
      by (auto simp: ptr_inv_def)
    with set_drop_one [of p ?q] show ?thesis
      by (auto simp: deliverReport_def Let_def rq_enqueue_def rq_len_def)
  qed
  ultimately show ?thesis
    using addr by (simp add: ptr_inv_def)
qed

lemma validate_frame [simp]:
  "rc_delivered (snd (receiver_validate verify now cmd r)) = rc_delivered r"
  "rc_dispatched (snd (receiver_validate verify now cmd r)) = rc_dispatched r"
  "rc_id_history (snd (receiver_validate verify now cmd r)) = rc_id_history r"
  by (auto simp: receiver_validate_def Let_def split: sum.splits option.splits prod.splits)

lemma ptr_inv_validate [simp]: "ptr_inv A (snd (receiver_validate verify now cmd r)) \<longleftrightarrow> ptr_inv A r"
  by (auto simp: receiver_validate_def Let_def split: sum.splits option.splits prod.splits)

lemma core_inv_nonces:
  assumes "core_inv verify cfg r"
  shows "core_inv verify cfg
    (r\<lparr>rc_nonces := snd (nonce_seen k (rc_nonces r)),
       rc_nonce_history := rc_nonce_history r @ (if fst (nonce_seen k (rc_nonces r)) then [] else [k])\<rparr>)"
  using assms nonces.tracks_seen [of "rc_nonces r" "rc_nonce_history r" k]
  by (auto simp: core_inv_def split: if_splits)

lemma core_inv_ids:
  assumes "core_inv verify cfg r"
  shows "core_inv verify cfg
    (r\<lparr>rc_ids := snd (nonce_seen k (rc_ids r)),
       rc_id_history := rc_id_history r @ (if fst (nonce_seen k (rc_ids r)) then [] else [k])\<rparr>)"
  using assms nonces.tracks_seen [of "rc_ids r" "rc_id_history r" k]
  by (auto simp: core_inv_def split: if_splits)

lemma core_inv_validate:
  assumes "core_inv verify cfg r"
  shows "core_inv verify cfg (snd (receiver_validate verify now cmd r))"
  using assms core_inv_nonces [OF assms, of "c_Nonce cmd"]
  by (auto simp: receiver_validate_def Let_def split: sum.splits option.splits prod.splits)

text \<open>An accepted command was admitted, and its nonce is the newest entry of the history.\<close>

lemma validate_accepts:
  assumes "fst (receiver_validate verify now cmd r) = None" "core_inv verify cfg r"
  shows "admitted verify cfg now cmd \<and>
    rc_nonce_history (snd (receiver_validate verify now cmd r)) = rc_nonce_history r @ [c_Nonce cmd]"
  using assms
  by (auto simp: receiver_validate_def admitted_def core_inv_def Let_def
      split: sum.splits option.splits prod.splits if_splits)

lemma validate_history:
  "\<exists>t. rc_nonce_history (snd (receiver_validate verify now cmd r)) = rc_nonce_history r @ t"
  by (auto simp: receiver_validate_def Let_def split: sum.splits option.splits prod.splits)

lemma subseq_distinct_rule: "subseq xs ys \<Longrightarrow> distinct ys \<Longrightarrow> distinct xs"
  by (metis distinct_nthsI subseq_conv_nths)

text \<open>The receiver after the id check, and the three outcomes of \<open>process_cmd\<close>.\<close>

definition after_id_check :: "command \<Rightarrow> receiver \<Rightarrow> receiver" where
  "after_id_check cmd r =
     r\<lparr>rc_ids := snd (nonce_seen (c_ID cmd) (rc_ids r)),
       rc_id_history := rc_id_history r @ (if fst (nonce_seen (c_ID cmd) (rc_ids r)) then [] else [c_ID cmd])\<rparr>"

lemma process_cmd_cases:
  obtains
    (duplicate) "fst (nonce_seen (c_ID cmd) (rc_ids r))" "process_cmd verify env cmd r = after_id_check cmd r"
  | (refused) msg where
      "\<not> fst (nonce_seen (c_ID cmd) (rc_ids r))"
      "fst (receiver_validate verify (pe_now env) cmd (after_id_check cmd r)) = Some msg"
      "process_cmd verify env cmd r =
         (let r2 = snd (receiver_validate verify (pe_now env) cmd (after_id_check cmd r)) in
          deliverReport (pe_push env) (newReport r2 cmd StatusRefused msg (pe_stamp env))
            (r2\<lparr>rc_metrics := IncCommand (c_Verb cmd) ''refused'' (rc_metrics r2)\<rparr>))"
  | (accepted)
      "\<not> fst (nonce_seen (c_ID cmd) (rc_ids r))"
      "fst (receiver_validate verify (pe_now env) cmd (after_id_check cmd r)) = None"
      "process_cmd verify env cmd r =
         (let r2 = snd (receiver_validate verify (pe_now env) cmd (after_id_check cmd r));
              r3 = deliverReport (pe_push env) (newReport r2 cmd StatusReceived '''' (pe_stamp env)) r2
          in r3\<lparr>rc_dispatched := rc_dispatched r3 @ [(pe_now env, cmd)]\<rparr>)"
  by (cases "fst (nonce_seen (c_ID cmd) (rc_ids r))";
      cases "fst (receiver_validate verify (pe_now env) cmd (after_id_check cmd r))")
    (auto simp: process_cmd_def after_id_check_def split_def Let_def)

lemma core_inv_process:
  assumes inv: "core_inv verify cfg r"
  shows "core_inv verify cfg (process_cmd verify env cmd r)"
proof -
  let ?r1 = "after_id_check cmd r"
  let ?r2 = "snd (receiver_validate verify (pe_now env) cmd ?r1)"
  have inv1: "core_inv verify cfg ?r1"
    unfolding after_id_check_def using inv by (rule core_inv_ids)
  have inv2: "core_inv verify cfg ?r2"
    using inv1 by (rule core_inv_validate)
  show ?thesis
  proof (cases rule: process_cmd_cases [of cmd r verify env])
    case duplicate
    with inv1 show ?thesis by simp
  next
    case (refused msg)
    with inv2 show ?thesis
      by (simp add: Let_def) (simp add: core_inv_def)
  next
    case accepted
    have "subseq (map (c_ID \<circ> snd) (rc_dispatched r @ [(pe_now env, cmd)])) (rc_id_history r @ [c_ID cmd])"
      "subseq (map (c_Nonce \<circ> snd) (rc_dispatched r @ [(pe_now env, cmd)]))
        (rc_nonce_history r @ [c_Nonce cmd])"
      using inv by (simp_all add: core_inv_def list_emb_append_mono)
    moreover have "rc_nonce_history ?r2 = rc_nonce_history r @ [c_Nonce cmd]" "admitted verify cfg (pe_now env) cmd"
      using validate_accepts [OF accepted(2) inv1] by (simp_all add: after_id_check_def)
    moreover have "rc_id_history ?r2 = rc_id_history r @ [c_ID cmd]"
      using accepted(1) by (simp add: after_id_check_def)
    moreover have "rc_dispatched ?r2 = rc_dispatched r"
      by (simp add: after_id_check_def)
    ultimately show ?thesis
      using inv2 inv accepted(3) by (auto simp: core_inv_def Let_def)
  qed
qed

lemma ptr_inv_process:
  assumes "ptr_inv A r"
  shows "ptr_inv A (process_cmd verify env cmd r)"
proof -
  have "ptr_inv A (after_id_check cmd r)"
    using assms by (simp add: after_id_check_def)
  then show ?thesis
    by (cases rule: process_cmd_cases [of cmd r verify env]) (simp_all add: Let_def ptr_inv_deliver)
qed

lemma delivered_grows:
  "set (rc_delivered r) \<subseteq> set (rc_delivered (process_cmd verify env cmd r))"
  by (cases rule: process_cmd_cases [of cmd r verify env]) (auto simp: Let_def after_id_check_def)

lemmas process_invs = core_inv_process ptr_inv_process

lemma process_all_inv:
  assumes "process_all verify cs r = Some r'" "core_inv verify cfg r" "ptr_inv A r"
  shows "core_inv verify cfg r' \<and> ptr_inv A r' \<and> set (rc_delivered r) \<subseteq> set (rc_delivered r')"
  using assms
proof (induction verify cs r rule: process_all.induct)
  case (2 verify env ptr cs r)
  from "2.prems"(1) obtain cmd where ptr: "ptr = Some cmd"
    and rest: "process_all verify cs (process_cmd verify env cmd r) = Some r'"
    by (auto simp: process_def split: option.splits)
  have "core_inv verify cfg r' \<and> ptr_inv A r' \<and>
      set (rc_delivered (process_cmd verify env cmd r)) \<subseteq> set (rc_delivered r')"
    using "2.IH" [of "process_cmd verify env cmd r"] ptr rest "2.prems" process_invs
    by (simp add: process_def)
  with delivered_grows show ?case by blast
qed simp

lemma ptr_inv_clearSent:
  assumes inv: "ptr_inv A r" and sent: "set sent \<subseteq> set (rc_delivered r)"
  shows "ptr_inv (A \<union> set sent) (r\<lparr>rc_queue := rq_clearSent sent (rc_queue r)\<rparr>)"
proof -
  let ?q = "rq_ll (rc_queue r)"
  let ?keep = "dropWhile (\<lambda>e. fst e \<in> fst ` set sent) ?q"
  have inj: "inj_on fst (set (rc_delivered r))"
    using inv by (simp add: ptr_inv_def distinct_map)
  have sub: "set ?q \<subseteq> set (rc_delivered r)"
    using inv by (simp add: ptr_inv_def)
  have "p \<in> set sent" if p: "p \<in> set ?q" "p \<notin> set ?keep" for p
  proof -
    have "p \<in> set (takeWhile (\<lambda>e. fst e \<in> fst ` set sent) ?q)"
      using p by (metis Un_iff set_append takeWhile_dropWhile_id)
    then obtain p' where "p' \<in> set sent" "fst p = fst p'"
      by (auto dest: set_takeWhileD)
    with inj sub sent p(1) show ?thesis
      by (metis inj_on_eq_iff subset_iff)
  qed
  moreover have "set ?keep \<subseteq> set ?q" "length ?keep \<le> length ?q"
    by (auto dest: set_dropWhileD simp: length_dropWhile_le)
  ultimately show ?thesis
    using inv by (auto simp: ptr_inv_def rq_clearSent_def rq_len_def clear_front_dropWhile)
qed

lemma core_inv_queue [simp]: "core_inv verify cfg (r\<lparr>rc_queue := q\<rparr>) \<longleftrightarrow> core_inv verify cfg r"
  by (simp add: core_inv_def)

lemma sys_inv_init: "sys_inv verify cfg (poll_init cfg push)"
proof -
  have "nonces.tracks (newNonceCache 10000) []"
    using nonce_inv_new [of 10000] by (simp add: nonces.tracks_def) (simp add: newNonceCache_def)
  then show ?thesis
    by (simp add: sys_inv_def core_inv_def ptr_inv_def poll_init_def receiver_New_def
        newReportQueue_def rq_len_def) (simp add: newNonceCache_def)
qed

lemma sys_inv_io:
  assumes "recv_io verify s s'" "sys_inv verify cfg s"
  shows "sys_inv verify cfg s'"
  using assms
proof (cases rule: recv_io.cases)
  case poll_start
  with assms(2) show ?thesis
    by (auto simp: sys_inv_def ptr_inv_def rq_snapshot_def)
next
  case (poll_failed sent rnd e)
  with assms(2) show ?thesis
    by (auto simp: sys_inv_def poll_error_def Let_def split: prod.splits)
next
  case (poll_ok sent ok cmds)
  let ?r1 = "if ok then (ps_r s)\<lparr>rc_queue := rq_clearSent sent (rc_queue (ps_r s))\<rparr> else ps_r s"
  let ?A = "if ok then set (ps_acked s) \<union> set sent else set (ps_acked s)"
  from poll_ok(2) obtain r2 where r2: "process_all verify cmds ?r1 = Some r2"
    and s': "s' = s\<lparr>ps_r := r2, ps_bo := backoff_reset (ps_bo s), ps_inflight := None,
      ps_acked := (if ok then ps_acked s @ sent else ps_acked s)\<rparr>"
    by (auto simp: poll_success_def Let_def split: option.splits)
  have "core_inv verify cfg ?r1" "ptr_inv ?A ?r1"
    using assms(2) poll_ok(1) ptr_inv_clearSent [of "set (ps_acked s)" "ps_r s" sent]
    by (auto simp: sys_inv_def)
  from process_all_inv [OF r2 this] s' show ?thesis
    by (auto simp: sys_inv_def)
next
  case (ws_command env ptr r')
  then obtain cmd where "r' = process_cmd verify env cmd (ps_r s)"
    by (auto simp: process_def split: option.splits)
  with assms(2) ws_command(1) process_invs delivered_grows show ?thesis
    by (fastforce simp: sys_inv_def split: option.splits)
qed

lemma sys_inv_step:
  assumes "recv_step verify s s'" "sys_inv verify cfg s"
  shows "sys_inv verify cfg s'"
  using assms
proof (cases rule: recv_step.cases)
  case io
  with assms(2) show ?thesis by (rule sys_inv_io [rotated])
next
  case (report t cmd now push rep)
  with assms(2) show ?thesis
    by (auto simp: sys_inv_def handler_report_def ptr_inv_deliver split: option.splits)
qed

lemma reachable_sys_inv: "recv_reachable verify cfg push s \<Longrightarrow> sys_inv verify cfg s"
  by (induction rule: recv_reachable.induct) (auto intro: sys_inv_init sys_inv_step)

section \<open>A concrete run\<close>

text \<open>One command with a well-formed signature arrives over the socket of a fresh receiver.\<close>

definition demo_signed :: command where
  "demo_signed = demo_command\<lparr>c_Signature := base64_EncodeToString ''sig''\<rparr>"

definition demo_penv :: penv where
  "demo_penv = \<lparr>pe_now = 1700000001 * Second, pe_stamp = 1700000002 * Second, pe_push = None\<rparr>"

abbreviation accept_all :: "bytes \<Rightarrow> bytes \<Rightarrow> bytes \<Rightarrow> bool" where
  "accept_all \<equiv> (\<lambda>_ _ _. True)"

definition demo_after :: poll_system where
  "demo_after = (poll_init demo_config True)
     \<lparr>ps_r := process_cmd accept_all demo_penv demo_signed (receiver_New demo_config True)\<rparr>"

lemma demo_reachable: "recv_reachable accept_all demo_config True demo_after"
proof (rule recv_reachable.step [OF recv_reachable.init])
  have "process accept_all demo_penv (Some demo_signed) (ps_r (poll_init demo_config True)) =
      Some (process_cmd accept_all demo_penv demo_signed (receiver_New demo_config True))"
    by (simp add: process_def poll_init_def)
  then show "recv_step accept_all (poll_init demo_config True) demo_after"
    unfolding demo_after_def by (intro recv_step.io recv_io.ws_command)
qed

lemma demo_accepted:
  "fst (receiver_validate accept_all (1700000001 * Second) demo_signed
     (after_id_check demo_signed (receiver_New demo_config True))) = None"
proof -
  have "base64_EncodeToString ''sig'' \<noteq> ''''"
    by code_simp
  then have "VerifySignature accept_all pub demo_signed = None" for pub
    by (simp add: VerifySignature_None demo_signed_def b64.decode_encode)
  moreover have "time_Since (1700000001 * Second) (time_Unix (c_Timestamp demo_signed)) = Second"
    by (simp add: demo_signed_def demo_command_def) code_simp
  ultimately show ?thesis
    by (simp add: receiver_validate_def after_id_check_def receiver_New_def nonce_seen_def
        newNonceCache_def Let_def)
qed

lemma demo_dispatched: "rc_dispatched (ps_r demo_after) = [(1700000001 * Second, demo_signed)]"
proof (cases rule: process_cmd_cases [of demo_signed "receiver_New demo_config True" accept_all demo_penv])
  case accepted
  then show ?thesis
    by (simp add: demo_after_def Let_def after_id_check_def receiver_New_def demo_penv_def)
next
  case (refused msg)
  with demo_accepted show ?thesis by (simp add: demo_penv_def)
next
  case duplicate
  then show ?thesis
    by (simp add: receiver_New_def nonce_seen_def newNonceCache_def Let_def)
qed

section \<open>Properties\<close>

text \<open>
  C3. Only authentic, fresh commands run: in every reachable state, under any interleaving of the
  poll loop, the socket and running handlers, a command the receiver handed to its handler was
  admitted by a receiver in write mode, carries a signature that decodes and that Ed25519 accepts
  for its signing payload under the configured public key, and its timestamp lay within five minutes
  of the clock at that moment. In particular a read-only receiver dispatches nothing.
\<close>

theorem dispatched_is_authentic:
  assumes "recv_reachable verify cfg push s" "(t, cmd) \<in> set (rc_dispatched (ps_r s))"
    and "0 \<le> t" "t < 2 ^ 63" "int64_ok (c_Timestamp cmd)"
  shows "WriterEnabled cfg \<and>
    (\<exists>pub sig. PublicKey cfg = Inr pub \<and> base64_DecodeString (c_Signature cmd) = Some sig \<and>
       verify pub (SigningPayload cmd) sig) \<and>
    \<bar>t - c_Timestamp cmd * Second\<bar> \<le> 5 * Minute"
proof -
  have "admitted verify cfg t cmd"
    using reachable_sys_inv [OF assms(1)] assms(2) by (auto simp: sys_inv_def core_inv_def)
  then show ?thesis
    using time_Since_Unix_bound [of t "c_Timestamp cmd" maxClockSkew] assms(3-)
    by (auto simp: admitted_def VerifySignature_None)
qed

theorem dispatched_is_authentic_witness:
  "WriterEnabled demo_config \<and>
    (\<exists>pub sig. PublicKey demo_config = Inr pub \<and>
       base64_DecodeString (c_Signature demo_signed) = Some sig \<and>
       accept_all pub (SigningPayload demo_signed) sig) \<and>
    \<bar>1700000001 * Second - c_Timestamp demo_signed * Second\<bar> \<le> 5 * Minute"
  by (rule dispatched_is_authentic [OF demo_reachable])
    (simp_all add: demo_dispatched demo_signed_def demo_command_def int64_ok_def)



text \<open>
  C9. Terminal reports are not lost: in every reachable state, a report with a terminal status that
  was handed to \<^verbatim>\<open>deliverReport\<close> is still queued for the poll path, or was part of a poll the server
  acknowledged with ok, or was dropped because 1000 younger reports were queued behind it. Success
  of the socket write alone never removes it. The queue itself never exceeds 1000 reports, and the two
  caches never exceed 10000 keys.
\<close>

theorem terminal_reports_kept:
  assumes "recv_reachable verify cfg push s"
  shows "(\<forall>p \<in> set (rc_delivered (ps_r s)).
      r_Status (snd p) \<in> {StatusSucceeded, StatusFailed, StatusRefused} \<longrightarrow>
      p \<in> set (rq_ll (rc_queue (ps_r s))) \<union> set (ps_acked s) \<union> set (rc_dropped (ps_r s))) \<and>
    rq_len (rc_queue (ps_r s)) \<le> 1000 \<and>
    length (nc_ll (rc_nonces (ps_r s))) \<le> 10000 \<and> length (nc_ll (rc_ids (ps_r s))) \<le> 10000"
proof -
  have inv: "core_inv verify cfg (ps_r s)" "ptr_inv (set (ps_acked s)) (ps_r s)"
    using reachable_sys_inv [OF assms] by (simp_all add: sys_inv_def)
  have "length (nc_ll (rc_nonces (ps_r s))) \<le> 10000" "length (nc_ll (rc_ids (ps_r s))) \<le> 10000"
    using inv(1) nonces.inv_length [of "rc_nonces (ps_r s)"] nonces.inv_length [of "rc_ids (ps_r s)"]
    by (simp_all add: core_inv_def nonces.tracks_def)
  moreover have "rq_len (rc_queue (ps_r s)) \<le> 1000"
    using inv(2) by (simp add: ptr_inv_def)
  moreover have "\<forall>p \<in> set (rc_delivered (ps_r s)). isTerminal (r_Status (snd p)) \<longrightarrow>
      p \<in> set (rq_ll (rc_queue (ps_r s))) \<union> set (ps_acked s) \<union> set (rc_dropped (ps_r s))"
    using inv(2) by (simp add: ptr_inv_def)
  ultimately show ?thesis
    unfolding isTerminal_def by blast
qed

text \<open>The demo handler finishes: its terminal report is written to the socket and still queued.\<close>

definition demo_finished :: poll_system where
  "demo_finished = demo_after\<lparr>ps_r := handler_report demo_signed (1700000003 * Second)
     (Some (\<lambda>_. True)) (demo_report StatusSucceeded) (ps_r demo_after)\<rparr>"

theorem terminal_reports_kept_witness:
  "\<exists>p \<in> set (rc_delivered (ps_r demo_finished)). r_Status (snd p) = StatusSucceeded \<and>
     p \<in> set (rq_ll (rc_queue (ps_r demo_finished))) \<union> set (ps_acked demo_finished) \<union>
       set (rc_dropped (ps_r demo_finished))"
proof -
  have "recv_step accept_all demo_after demo_finished"
    unfolding demo_finished_def by (rule recv_step.report [of "1700000001 * Second"]) (simp add: demo_dispatched)
  then have "recv_reachable accept_all demo_config True demo_finished"
    using demo_reachable recv_reachable.step by blast
  note kept = terminal_reports_kept [OF this, THEN conjunct1]
  have "\<exists>p \<in> set (rc_delivered (ps_r demo_finished)). r_Status (snd p) = StatusSucceeded"
    by (simp add: demo_finished_def handler_report_def demo_report_def)
  with kept show ?thesis by blast
qed

text \<open>
  C24. One answer per command: processing a command whose id is new delivers exactly one report for
  it, with its id and the cluster's id: either status received, and the command is handed to the
  handler, or status refused, and it is not, the refusal being counted in the metrics. A command
  that fails the signature check leaves the nonce cache untouched, so it cannot burn the nonce of
  an authentic command.
\<close>

theorem process_answers_once:
  fixes verify env
  assumes "\<not> fst (nonce_seen (c_ID cmd) (rc_ids r))"
  defines "r' \<equiv> process_cmd verify env cmd r"
  shows "(\<exists>rep. rc_delivered r' = rc_delivered r @ [(rc_alloc r, rep)] \<and>
      r_CommandID rep = c_ID cmd \<and> r_ClusterID rep = ClusterID (rc_cfg r) \<and>
      (r_Status rep = StatusReceived \<and> rc_dispatched r' = rc_dispatched r @ [(pe_now env, cmd)] \<and>
         rc_metrics r' = rc_metrics r \<or>
       r_Status rep = StatusRefused \<and> rc_dispatched r' = rc_dispatched r \<and>
         rc_metrics r' = IncCommand (c_Verb cmd) ''refused'' (rc_metrics r))) \<and>
    (\<forall>pub. rc_pub r = Inr pub \<and> VerifySignature verify pub cmd \<noteq> None \<longrightarrow> rc_nonces r' = rc_nonces r)"
proof -
  let ?v = "receiver_validate verify (pe_now env) cmd (after_id_check cmd r)"
  have frame: "rc_alloc (snd ?v) = rc_alloc r" "rc_cfg (snd ?v) = rc_cfg r" "rc_metrics (snd ?v) = rc_metrics r"
    by (auto simp: receiver_validate_def after_id_check_def Let_def
        split: sum.splits option.splits prod.splits)
  have nonces: "rc_nonces (snd ?v) = rc_nonces r"
    if "rc_pub r = Inr pub" "VerifySignature verify pub cmd \<noteq> None" for pub
    using that by (auto simp: receiver_validate_def after_id_check_def)
  have metrics: "rc_metrics (deliverReport p rep x) = rc_metrics x" for p rep x
    by (simp add: deliverReport_def Let_def)
  show ?thesis
    unfolding r'_def
    by (cases rule: process_cmd_cases [of cmd r verify env])
      (use assms(1) frame nonces metrics in \<open>auto simp: Let_def newReport_def after_id_check_def\<close>)
qed

theorem process_answers_once_witness:
  "rc_delivered (process_cmd (\<lambda>_ _ _. False) demo_penv demo_signed (receiver_New demo_config True)) \<noteq> [] \<and>
   rc_nonces (process_cmd (\<lambda>_ _ _. False) demo_penv demo_signed (receiver_New demo_config True)) =
     newNonceCache 10000"
proof -
  have "\<not> fst (nonce_seen (c_ID demo_signed) (rc_ids (receiver_New demo_config True)))"
    by (simp add: nonce_seen_def receiver_New_def newNonceCache_def Let_def)
  note once = process_answers_once [OF this, of "\<lambda>_ _ _. False" demo_penv]
  have "VerifySignature (\<lambda>_ _ _. False) pub demo_signed \<noteq> None" for pub
    by (simp add: VerifySignature_def demo_signed_def b64.decode_encode)
  with once show ?thesis
    by (auto simp: receiver_New_def)
qed



end
