(* ===== verification/Wsclient.thy ===== *)
theory Wsclient
  imports Wire Receiver
begin

text \<open>
  The package \<^verbatim>\<open>internal/wsclient\<close>: the URL of the channel, the handshake, the dispatch of inbound frames, the
  keepalive decision, the reconnect delays, and the life of the client as a step relation in which reports are
  sent at any moment by other goroutines. The socket library is the environment: whether a dial or a write
  succeeds and which frames arrive is chosen by the steps.
\<close>

section \<open>Functions\<close>

abbreviation pingInterval :: duration where "pingInterval \<equiv> 25 * Second"
abbreviation pongTimeout :: duration where "pongTimeout \<equiv> 30 * Second"
abbreviation silenceTimeout :: duration where "silenceTimeout \<equiv> 60 * Second"
abbreviation wsAgentVersion :: string where "wsAgentVersion \<equiv> ''dev''"

definition wsURL :: "string \<Rightarrow> string" where
  "wsURL base =
     (let u = TrimRight base CHR ''/'';
          scheme = (if HasPrefix u ''https://'' then ''wss://'' else ''ws://'');
          u1 = TrimPrefix u ''http://'';
          u2 = TrimPrefix u1 ''https://''
      in scheme @ u2 @ ''/k8s/ws'')"

definition smellsAuth :: "string \<Rightarrow> bool" where
  "smellsAuth msg \<longleftrightarrow>
     (let m = ToLower msg in Contains m ''unauthorized'' \<or> Contains m ''token'' \<or> Contains m ''401'')"

text \<open>The errors of one connection attempt; texts of the socket library are left out.\<close>

datatype ws_error =
    DialError
  | HelloNotWritten
  | AckNotRead
  | AckUndecodable
  | UnexpectedFrame string
  | TokenRejected string
  | HelloRejected string
  | ConnLost

definition hello_frame :: "config \<Rightarrow> bytes" where
  "hello_frame cfg =
     json_text (WsHello_json \<lparr>wh_Type = WsTypeAgentHello, wh_Token = ServerToken cfg, wh_ClusterID = ClusterID cfg,
       wh_Version = wsAgentVersion\<rparr>)"

definition decode_envelope :: "bytes \<Rightarrow> ws_envelope option" where
  "decode_envelope = Unmarshal_into (dec_struct WsEnvelope_fields) \<lparr>we_Type = ''''\<rparr>"

definition decode_hello_ack :: "bytes \<Rightarrow> ws_hello_ack option" where
  "decode_hello_ack = Unmarshal_into (dec_struct WsHelloAck_fields) zero_hello_ack"

definition decode_command :: "bytes \<Rightarrow> ws_command_message option" where
  "decode_command = Unmarshal_into (dec_struct WsCommandMessage_fields) zero_command_message"

definition decode_error :: "bytes \<Rightarrow> ws_error_message option" where
  "decode_error = Unmarshal_into (dec_struct WsErrorMessage_fields) \<lparr>wm_Type = '''', wm_Message = ''''\<rparr>"

text \<open>The part of the handshake after the hello was written: the frame that was read, if one was.\<close>

definition check_ack :: "bytes option \<Rightarrow> ws_error option" where
  "check_ack frame =
     (case frame of
        None \<Rightarrow> Some AckNotRead
      | Some data \<Rightarrow>
          (case decode_envelope data of
             None \<Rightarrow> Some AckUndecodable
           | Some env \<Rightarrow>
               if we_Type env \<noteq> '''' \<and> we_Type env \<noteq> WsTypeHelloAck then Some (UnexpectedFrame (we_Type env))
               else
                 (case decode_hello_ack data of
                    None \<Rightarrow> Some AckUndecodable
                  | Some ack \<Rightarrow>
                      if \<not> wa_Accepted ack then
                        (let msg = ''hello rejected: '' @ wa_Message ack in
                         Some (if smellsAuth (wa_Message ack) then TokenRejected msg else HelloRejected msg))
                      else None)))"

definition handshake :: "bool \<Rightarrow> bytes option \<Rightarrow> ws_error option" where
  "handshake hello_written frame = (if \<not> hello_written then Some HelloNotWritten else check_ack frame)"

text \<open>An inbound frame: dropped, logged, handed to the handler, or the end of the process (nil command).\<close>

datatype ws_frame = TextFrame bytes | BinaryFrame bytes

datatype frame_action = Dropped | LogError string | Handled "command option" | NilCommand

definition on_frame :: "bool \<Rightarrow> ws_frame \<Rightarrow> frame_action" where
  "on_frame handler f =
     (case f of
        BinaryFrame _ \<Rightarrow> Dropped
      | TextFrame data \<Rightarrow>
          (case decode_envelope data of
             None \<Rightarrow> Dropped
           | Some env \<Rightarrow>
               if we_Type env = WsTypeCommand then
                 (case decode_command data of
                    None \<Rightarrow> Dropped
                  | Some msg \<Rightarrow>
                      if handler then Handled (wc_Command msg)
                      else if wc_Command msg = None then NilCommand
                      else Dropped)
               else if we_Type env = WsTypeError then
                 (case decode_error data of None \<Rightarrow> Dropped | Some msg \<Rightarrow> LogError (wm_Message msg))
               else Dropped))"

text \<open>
  One tick of \<^verbatim>\<open>keepalive\<close>: \<open>active\<close> is the time of the last activity, \<open>pong\<close> the time at which the ping was answered.
  \<open>None\<close>: the connection is closed; otherwise the new time of the last activity.
\<close>

definition keepalive :: "int \<Rightarrow> int \<Rightarrow> int option \<Rightarrow> int option" where
  "keepalive now active pong = (if now - active > silenceTimeout then None else pong)"

definition report_frame :: "report \<Rightarrow> bytes" where
  "report_frame r = json_text (WsReportMessage_json \<lparr>wr_Type = WsTypeReport, wr_Report = Some r\<rparr>)"

text \<open>
  \<^verbatim>\<open>SendReport\<close>: the flag read first, the connection found once the mutex is held, and whether the write
  succeeds. \<open>Some k\<close>: the frame went out on connection \<open>k\<close>.
\<close>

definition SendReport :: "bool \<Rightarrow> nat option \<Rightarrow> bool \<Rightarrow> nat option" where
  "SendReport live conn write_ok =
     (if \<not> live then None
      else case conn of None \<Rightarrow> None | Some k \<Rightarrow> if write_ok then Some k else None)"

section \<open>Reconnect delays\<close>

record ws_backoff =
  wb_d :: duration
  wb_authLogged :: bool

definition ws_next :: "rat \<Rightarrow> ws_backoff \<Rightarrow> duration \<times> ws_backoff" where
  "ws_next rnd b =
     (let d = (if wb_d b < backoffMin then backoffMin else wb_d b);
          d2 = (if d * 2 > backoffMax then backoffMax else d * 2)
      in (d + trunc_rat ((rnd * (4 / 10) - 2 / 10) * of_int d), b\<lparr>wb_d := d2\<rparr>))"

definition ws_reset :: "ws_backoff \<Rightarrow> ws_backoff" where
  "ws_reset b = b\<lparr>wb_d := 0, wb_authLogged := False\<rparr>"

definition ws_base :: "ws_backoff \<Rightarrow> duration" where
  "ws_base b = (if wb_d b < backoffMin then backoffMin else wb_d b)"

interpretation ws_retry: retry_policy ws_base "\<lambda>rnd b. snd (ws_next rnd b)" "ws_reset b0"
  by unfold_locales (auto simp: ws_base_def ws_next_def ws_reset_def Let_def)

text \<open>\<^verbatim>\<open>Run\<close> after a failed attempt: a rejected token is logged once per streak, then the next delay.\<close>

definition run_failed :: "ws_error \<Rightarrow> rat \<Rightarrow> ws_backoff \<Rightarrow> bool \<times> duration \<times> ws_backoff" where
  "run_failed e rnd b =
     (case e of
        TokenRejected _ \<Rightarrow>
          (case ws_next rnd (b\<lparr>wb_authLogged := True\<rparr>) of (d, b') \<Rightarrow> (\<not> wb_authLogged b, d, b'))
      | _ \<Rightarrow> (case ws_next rnd b of (d, b') \<Rightarrow> (False, d, b')))"

section \<open>The life of the client\<close>

text \<open>
  The loop is dialing, in the handshake on a new connection, about to announce it, reading from it, or
  closing it; a nil command ends the process.
\<close>

datatype ws_phase = Dialing | InHandshake nat | Announcing nat | Reading nat | Closing nat | Crashed

datatype ws_event =
    HelloSent nat bytes
  | Accepted nat
  | ReportSent nat report
  | CommandRead nat "command option"
  | ConnClosed nat

record ws_client =
  wsc_phase :: ws_phase
  wsc_fresh :: nat
  wsc_connected :: bool
  wsc_conn :: "nat option"
  wsc_handler :: bool
  wsc_backoff :: ws_backoff
  wsc_tunnel :: bool
  wsc_log :: "ws_event list"

definition ws_New :: ws_client where
  "ws_New =
     \<lparr>wsc_phase = Dialing, wsc_fresh = 0, wsc_connected = False, wsc_conn = None, wsc_handler = False,
      wsc_backoff = \<lparr>wb_d = 0, wb_authLogged = False\<rparr>, wsc_tunnel = False, wsc_log = []\<rparr>"

definition SetCommandHandler :: "ws_client \<Rightarrow> ws_client" where
  "SetCommandHandler c = c\<lparr>wsc_handler := True\<rparr>"

definition logged :: "ws_event list \<Rightarrow> ws_client \<Rightarrow> ws_client" where
  "logged es c = c\<lparr>wsc_log := wsc_log c @ es\<rparr>"

definition failed_attempt :: "ws_error \<Rightarrow> rat \<Rightarrow> ws_client \<Rightarrow> ws_client" where
  "failed_attempt e rnd c =
     c\<lparr>wsc_phase := Dialing, wsc_backoff := snd (snd (run_failed e rnd (wsc_backoff c)))\<rparr>"

inductive ws_step :: "config \<Rightarrow> ws_client \<Rightarrow> ws_client \<Rightarrow> bool" for cfg :: config where
  dial_failed: "wsc_phase c = Dialing \<Longrightarrow> ws_step cfg c (failed_attempt DialError rnd c)"
| dialed: "wsc_phase c = Dialing \<Longrightarrow>
    ws_step cfg c (c\<lparr>wsc_phase := InHandshake (wsc_fresh c), wsc_fresh := Suc (wsc_fresh c)\<rparr>)"
| rejected: "wsc_phase c = InHandshake k \<Longrightarrow> handshake written frame = Some e \<Longrightarrow>
    ws_step cfg c (failed_attempt e rnd
      (logged ((if written then [HelloSent k (hello_frame cfg)] else []) @ [ConnClosed k]) c))"
| accepted: "wsc_phase c = InHandshake k \<Longrightarrow> handshake True frame = None \<Longrightarrow>
    ws_step cfg c (logged [HelloSent k (hello_frame cfg), Accepted k]
      (c\<lparr>wsc_phase := Announcing k, wsc_conn := Some k, wsc_backoff := ws_reset (wsc_backoff c)\<rparr>))"
| announced: "wsc_phase c = Announcing k \<Longrightarrow>
    ws_step cfg c (c\<lparr>wsc_phase := Reading k, wsc_connected := True, wsc_tunnel := True\<rparr>)"
| frame_ignored: "wsc_phase c = Reading k \<Longrightarrow> on_frame (wsc_handler c) f \<in> {Dropped, LogError m} \<Longrightarrow>
    ws_step cfg c c"
| frame_handled: "wsc_phase c = Reading k \<Longrightarrow> on_frame (wsc_handler c) f = Handled cmd \<Longrightarrow>
    ws_step cfg c (logged [CommandRead k cmd] (if cmd = None then c\<lparr>wsc_phase := Crashed\<rparr> else c))"
| frame_nil: "wsc_phase c = Reading k \<Longrightarrow> on_frame (wsc_handler c) f = NilCommand \<Longrightarrow>
    ws_step cfg c (c\<lparr>wsc_phase := Crashed\<rparr>)"
| lost: "wsc_phase c = Reading k \<Longrightarrow>
    ws_step cfg c (c\<lparr>wsc_phase := Closing k, wsc_connected := False, wsc_tunnel := False\<rparr>)"
| closed: "wsc_phase c = Closing k \<Longrightarrow>
    ws_step cfg c (failed_attempt ConnLost rnd (logged [ConnClosed k]
      (c\<lparr>wsc_conn := (if wsc_conn c = Some k then None else wsc_conn c)\<rparr>)))"
| report: "wsc_phase c \<noteq> Crashed \<Longrightarrow> SendReport flag (wsc_conn c) write_ok = Some k \<Longrightarrow>
    ws_step cfg c (logged [ReportSent k r] c)"
| handler: "ws_step cfg c (SetCommandHandler c)"

inductive ws_reach :: "config \<Rightarrow> ws_client \<Rightarrow> bool" for cfg :: config where
  start: "ws_reach cfg ws_New"
| step: "ws_reach cfg c \<Longrightarrow> ws_step cfg c c' \<Longrightarrow> ws_reach cfg c'"

section \<open>The session protocol\<close>

text \<open>
  What the server sees of one connection: nothing yet, the hello, an open session, the end. \<open>sess\<close> says how each
  event moves the connection it is about, and \<open>None\<close> that the event is out of order.
\<close>

datatype session = NoHello | Greeted | Open | Ended

definition sess :: "config \<Rightarrow> ws_event \<Rightarrow> (nat \<Rightarrow> session) \<Rightarrow> (nat \<Rightarrow> session) option" where
  "sess cfg e st =
     (case e of
        HelloSent k b \<Rightarrow> if st k = NoHello \<and> b = hello_frame cfg then Some (st(k := Greeted)) else None
      | Accepted k \<Rightarrow> if st k = Greeted then Some (st(k := Open)) else None
      | ReportSent k r \<Rightarrow> if st k = Open then Some st else None
      | CommandRead k c \<Rightarrow> if st k = Open then Some st else None
      | ConnClosed k \<Rightarrow> if st k \<noteq> Ended then Some (st(k := Ended)) else None)"

fun sessions :: "config \<Rightarrow> ws_event list \<Rightarrow> (nat \<Rightarrow> session) \<Rightarrow> (nat \<Rightarrow> session) option" where
  "sessions cfg [] st = Some st"
| "sessions cfg (e # es) st = (case sess cfg e st of None \<Rightarrow> None | Some st' \<Rightarrow> sessions cfg es st')"

lemma sessions_append:
  "sessions cfg (xs @ ys) st = (case sessions cfg xs st of None \<Rightarrow> None | Some st' \<Rightarrow> sessions cfg ys st')"
  by (induction xs arbitrary: st) (auto split: option.splits)

text \<open>
  The client keeps to the protocol: the state of its connections according to the log matches the
  phase, and a report can only go out on an open connection.
\<close>

definition ws_ok :: "config \<Rightarrow> (nat \<Rightarrow> session) \<Rightarrow> ws_client \<Rightarrow> bool" where
  "ws_ok cfg st c \<longleftrightarrow>
     sessions cfg (wsc_log c) (\<lambda>_. NoHello) = Some st \<and>
     (\<forall>k \<ge> wsc_fresh c. st k = NoHello) \<and>
     (\<forall>k. wsc_conn c = Some k \<longrightarrow> st k = Open) \<and>
     (case wsc_phase c of
        Dialing \<Rightarrow> wsc_conn c = None \<and> \<not> wsc_connected c
      | InHandshake k \<Rightarrow> wsc_conn c = None \<and> \<not> wsc_connected c \<and> st k = NoHello \<and> k < wsc_fresh c
      | Announcing k \<Rightarrow> wsc_conn c = Some k \<and> \<not> wsc_connected c \<and> st k = Open \<and> k < wsc_fresh c
      | Reading k \<Rightarrow> wsc_conn c = Some k \<and> wsc_connected c \<and> st k = Open \<and> k < wsc_fresh c
      | Closing k \<Rightarrow> wsc_conn c = Some k \<and> \<not> wsc_connected c \<and> st k = Open \<and> k < wsc_fresh c
      | Crashed \<Rightarrow> True)"

definition ws_inv :: "config \<Rightarrow> ws_client \<Rightarrow> bool" where
  "ws_inv cfg c \<longleftrightarrow> (\<exists>st. ws_ok cfg st c)"

lemmas ws_ok_defs = ws_ok_def logged_def failed_attempt_def SetCommandHandler_def sessions_append sess_def

lemma ws_ok_step:
  assumes "ws_step cfg c c'" "ws_ok cfg st c"
  shows "\<exists>st'. ws_ok cfg st' c'"
  using assms(1)
proof cases
  case (rejected k wr frame e rnd)
  then have "ws_ok cfg (st(k := Ended)) c'" using assms(2) by (simp add: ws_ok_defs)
  then show ?thesis by blast
next
  case (accepted k frame)
  then have "ws_ok cfg (st(k := Open)) c'" using assms(2) by (simp add: ws_ok_defs)
  then show ?thesis by blast
next
  case (closed k rnd)
  then have "ws_ok cfg (st(k := Ended)) c'" using assms(2) by (simp add: ws_ok_defs)
  then show ?thesis by blast
next
  case (report flag write_ok k r)
  then have "wsc_conn c = Some k" by (auto simp: SendReport_def split: if_splits option.splits)
  then have "ws_ok cfg st c'" using report assms(2) by (simp add: ws_ok_defs split: ws_phase.splits)
  then show ?thesis by blast
qed (rule exI [of _ st], use assms(2) in \<open>simp add: ws_ok_defs split: ws_phase.splits\<close>)+

lemma ws_inv_step: "ws_step cfg c c' \<Longrightarrow> ws_inv cfg c \<Longrightarrow> ws_inv cfg c'"
  unfolding ws_inv_def using ws_ok_step by blast

lemma ws_reach_inv: "ws_reach cfg c \<Longrightarrow> ws_inv cfg c"
proof (induction rule: ws_reach.induct)
  case start
  show ?case by (simp add: ws_inv_def ws_ok_def ws_New_def)
qed (rule ws_inv_step)

section \<open>What the server's frames become\<close>

lemma envelope_skip:
  "list_all (\<lambda>p. field_of WsEnvelope_fields (fst p) = None) m \<Longrightarrow> dec_members WsEnvelope_fields r m = Some r"
  by (induction m) simp_all

lemma envelope_foreign:
  "field_of WsEnvelope_fields ''accepted'' = None" "field_of WsEnvelope_fields ''message'' = None"
  "field_of WsEnvelope_fields ''command'' = None" "field_of WsEnvelope_fields ''report'' = None"
proof -
  have "fold_name ''type'' = ''TYPE''" "fold_name ''accepted'' = ''ACCEPTED''" "fold_name ''message'' = ''MESSAGE''"
    "fold_name ''command'' = ''COMMAND''" "fold_name ''report'' = ''REPORT''"
    by code_simp+
  then show "field_of WsEnvelope_fields ''accepted'' = None" "field_of WsEnvelope_fields ''message'' = None"
    "field_of WsEnvelope_fields ''command'' = None" "field_of WsEnvelope_fields ''report'' = None"
    by (simp_all add: field_of_def WsEnvelope_fields_def)
qed

lemma decode_envelope_type:
  assumes "nums_ok (JObj ((''type'', JStr t) # m))" "json_depth (JObj ((''type'', JStr t) # m)) \<le> 9" "utf8_valid t"
    and "list_all (\<lambda>p. fst p \<in> {''accepted'', ''message'', ''command'', ''report''}) m"
  shows "decode_envelope (json_text (JObj ((''type'', JStr t) # m))) = Some \<lparr>we_Type = t\<rparr>"
proof -
  have "to_valid k = k" if "k \<in> {''accepted'', ''message'', ''command'', ''report''}" for k
    using that by (elim insertE) simp_all
  then have "list_all (\<lambda>p. field_of WsEnvelope_fields (fst p) = None) (map (\<lambda>(k, v). (to_valid k, repair v)) m)"
    using assms(4) envelope_foreign by (fastforce simp: list_all_iff)
  then have "dec_members WsEnvelope_fields \<lparr>we_Type = t\<rparr> (map (\<lambda>(k, v). (to_valid k, repair v)) m) = Some \<lparr>we_Type = t\<rparr>"
    by (rule envelope_skip)
  moreover have "field_of WsEnvelope_fields ''type'' = Some (fld dec_string we_Type we_Type_update)"
    by (simp add: WsEnvelope_fields_def field_of_def)
  ultimately have "dec_struct WsEnvelope_fields \<lparr>we_Type = ''''\<rparr> (repair (JObj ((''type'', JStr t) # m))) = Some \<lparr>we_Type = t\<rparr>"
    using assms(3) by (simp add: fld_def)
  moreover have "Unmarshal (json_text (JObj ((''type'', JStr t) # m))) = Some (repair (JObj ((''type'', JStr t) # m)))"
    by (rule Unmarshal_json_text [OF assms(1) le_trans [OF assms(2)]]) simp
  ultimately show ?thesis
    by (simp only: decode_envelope_def Unmarshal_into_def option.case)
qed

definition ack_frame :: "ws_hello_ack \<Rightarrow> bytes" where
  "ack_frame a = json_text (WsHelloAck_json a)"

definition command_frame :: "command option \<Rightarrow> bytes" where
  "command_frame c = json_text (WsCommandMessage_json \<lparr>wc_Type = WsTypeCommand, wc_Command = c\<rparr>)"

lemma handshake_accepts: "handshake True (Some (ack_frame \<lparr>wa_Type = WsTypeHelloAck, wa_Accepted = True, wa_Message = ''''\<rparr>)) = None"
proof -
  let ?a = "\<lparr>wa_Type = WsTypeHelloAck, wa_Accepted = True, wa_Message = ''''\<rparr>"
  have tree: "WsHelloAck_json ?a = JObj [(''type'', JStr WsTypeHelloAck), (''accepted'', JBool True)]"
    by (simp add: WsHelloAck_json_def opt_str_def)
  have "decode_envelope (ack_frame ?a) = Some \<lparr>we_Type = WsTypeHelloAck\<rparr>"
    unfolding ack_frame_def tree by (rule decode_envelope_type) (simp_all add: utf8_valid_ascii)
  moreover have "decode_hello_ack (ack_frame ?a) = Some ?a"
    unfolding decode_hello_ack_def ack_frame_def
    by (rule hello_ack_wire.roundtrip) (simp add: hello_ack_ok_def utf8_valid_ascii)
  ultimately show ?thesis by (simp add: handshake_def check_ack_def)
qed

lemma on_frame_command:
  assumes "pred_option command_ok c"
  shows "on_frame True (TextFrame (command_frame c)) = Handled c"
proof -
  let ?m = "\<lparr>wc_Type = WsTypeCommand, wc_Command = c\<rparr>"
  have ok: "command_message_ok ?m" using assms by (simp add: command_message_ok_def utf8_valid_ascii)
  then have "decode_command (command_frame c) = Some ?m"
    unfolding decode_command_def command_frame_def by (rule command_message_wire.roundtrip)
  moreover have "decode_envelope (command_frame c) = Some \<lparr>we_Type = WsTypeCommand\<rparr>"
    using command_message_wire.printable [OF ok] command_message_wire.shallow [of ?m]
    unfolding command_frame_def WsCommandMessage_json_def ws_command_message.select_convs
    by (rule decode_envelope_type) (simp_all add: utf8_valid_ascii)
  ultimately show ?thesis by (simp add: on_frame_def)
qed

section \<open>Properties\<close>

text \<open>
  C13. On every connection the client keeps to the session protocol, whatever the server does and
  whenever reports are sent: the hello with the token is the first frame, reports go out and commands are
  accepted only after the server has accepted the hello and before the connection is closed, and the
  client counts as connected exactly while it reads from an accepted connection.
\<close>

theorem ws_session_protocol:
  assumes "ws_reach cfg c"
  shows "(\<exists>st. sessions cfg (wsc_log c) (\<lambda>_. NoHello) = Some st \<and> (\<forall>k. wsc_conn c = Some k \<longrightarrow> st k = Open)) \<and>
    (wsc_phase c \<noteq> Crashed \<longrightarrow> (wsc_connected c \<longleftrightarrow> (\<exists>k. wsc_phase c = Reading k \<and> wsc_conn c = Some k)))"
  using ws_reach_inv [OF assms] unfolding ws_inv_def ws_ok_def by (cases "wsc_phase c") auto

theorem ws_session_protocol_witness:
  "\<exists>c. ws_reach demo_config c \<and> wsc_connected c \<and> length (wsc_log c) = 3 \<and>
     (\<exists>st. sessions demo_config (wsc_log c) (\<lambda>_. NoHello) = Some st \<and> st 0 = Open)"
proof -
  define c1 where "c1 = ws_New\<lparr>wsc_phase := InHandshake 0, wsc_fresh := 1\<rparr>"
  define c2 where "c2 = logged [HelloSent 0 (hello_frame demo_config), Accepted 0]
      (c1\<lparr>wsc_phase := Announcing 0, wsc_conn := Some 0, wsc_backoff := ws_reset (wsc_backoff c1)\<rparr>)"
  define c3 where "c3 = c2\<lparr>wsc_phase := Reading 0, wsc_connected := True, wsc_tunnel := True\<rparr>"
  define c4 where "c4 = logged [ReportSent 0 (demo_report ''c-1'')] c3"
  have "ws_step demo_config ws_New c1"
    using ws_step.dialed [of ws_New demo_config] by (simp add: c1_def ws_New_def)
  moreover have "ws_step demo_config c1 c2"
    unfolding c2_def by (rule ws_step.accepted [OF _ handshake_accepts]) (simp add: c1_def)
  moreover have "ws_step demo_config c2 c3"
    unfolding c3_def by (rule ws_step.announced) (simp add: c2_def logged_def)
  moreover have "ws_step demo_config c3 c4"
    unfolding c4_def
    by (rule ws_step.report [where flag = True and write_ok = True]) (simp_all add: c3_def c2_def logged_def SendReport_def)
  ultimately have reach: "ws_reach demo_config c4"
    by (meson ws_reach.intros)
  moreover have "wsc_connected c4" "length (wsc_log c4) = 3" "wsc_conn c4 = Some 0"
    by (simp_all add: c4_def c3_def c2_def c1_def ws_New_def logged_def)
  ultimately show ?thesis using ws_session_protocol [OF reach] by blast
qed

end
