(* ===== verification/Exec_Objects.thy ===== *)
theory Exec_Objects
  imports Exec_Monad
begin

text \<open>
  The handlers of \<^verbatim>\<open>internal/executor\<close> for single objects and manifests: apply, patch, delete and the
  rotation of certificates, with the drift gate and the dry run they share.
\<close>

section \<open>Reporting\<close>

abbreviation resultSucceeded :: string where "resultSucceeded \<equiv> ''succeeded''"
abbreviation resultFailed :: string where "resultFailed \<equiv> ''failed''"
abbreviation resultRefused :: string where "resultRefused \<equiv> ''refused''"

definition refuse :: "command \<Rightarrow> string \<Rightarrow> ('w, 'c, unit) act" where
  "refuse cmd reason = do {
     _ \<leftarrow> emit (EMetric (c_Verb cmd) resultRefused);
     report_of StatusRefused reason }"

definition fail :: "command \<Rightarrow> string \<Rightarrow> string \<Rightarrow> ('w, 'c, unit) act" where
  "fail cmd msg err = do {
     _ \<leftarrow> emit (EMetric (c_Verb cmd) resultFailed);
     report_of StatusFailed (msg @ '': '' @ err) }"

definition succeed :: "command \<Rightarrow> string \<Rightarrow> ('w, 'c, unit) act" where
  "succeed cmd msg = do {
     _ \<leftarrow> emit (EMetric (c_Verb cmd) resultSucceeded);
     report_of StatusSucceeded msg }"

definition gvrOf :: "resource_ref \<Rightarrow> gvr" where
  "gvrOf ref = \<lparr>g_Group = rr_Group ref, g_Version = rr_Version ref, g_Resource = rr_Resource ref\<rparr>"

section \<open>The drift gate\<close>

definition checkDrift :: "('w, 'c, 'q) executor \<Rightarrow> command \<Rightarrow> jobj \<Rightarrow> ('w, 'c, bool) act" where
  "checkDrift e cmd live =
     (if c_ExpectedHash cmd = '''' then State_Monad.return True
      else
        (let (match, diff) = Check (ex_U e) live (c_ExpectedHash cmd);
             gate = (\<lambda>msg. do {
               _ \<leftarrow> emit (EMetric (c_Verb cmd) resultRefused);
               _ \<leftarrow> emit (EReport StatusRefused msg diff 0);
               State_Monad.return False })
         in if match then State_Monad.return True
            else if DriftPolicy (ex_cfg e) = DriftOverwrite then State_Monad.return True
            else if DriftPolicy (ex_cfg e) = DriftOverwriteWithApproval then
              (if c_Override cmd then State_Monad.return True
               else gate ''drift detected, approval required (override not set)'')
            else gate ''drift detected, refusing to overwrite''))"

text \<open>\<open>liveGet\<close> turns "not found" into the absence of an object.\<close>

definition liveGet :: "('w, 'c, 'q) executor \<Rightarrow> gvr \<Rightarrow> string option \<Rightarrow> string \<Rightarrow>
    ('w, 'c, string + jobj option) act" where
  "liveGet e g ns name = do {
     r \<leftarrow> api_get e g ns name;
     State_Monad.return
       (case r of
          Inr live \<Rightarrow> Inr (Some live)
        | Inl err \<Rightarrow> if ae_notfound err then Inr None else Inl (ae_text err)) }"

definition liveObject :: "('w, 'c, 'q) executor \<Rightarrow> gvr \<Rightarrow> string \<Rightarrow> string \<Rightarrow>
    ('w, 'c, string + jobj option) act" where
  "liveObject e g ns name = liveGet e g (Some ns) name"

section \<open>Manifests\<close>

fun list_items :: "json list \<Rightarrow> jobj list option" where
  "list_items [] = Some []"
| "list_items (JObj m # xs) = map_option ((#) m) (list_items xs)"
| "list_items (_ # xs) = None"

fun decode_docs :: "unstr \<Rightarrow> (bytes \<Rightarrow> string + jobj) \<Rightarrow> (string + bytes) list \<Rightarrow> jobj list \<Rightarrow>
    string + jobj list" where
  "decode_docs U unmarshal [] objs = Inr objs"
| "decode_docs U unmarshal (Inl err # docs) objs = Inl err"
| "decode_docs U unmarshal (Inr doc0 # docs) objs =
     (let doc = TrimSpace doc0 in
      if doc = '''' then decode_docs U unmarshal docs objs
      else case unmarshal doc of
        Inl err \<Rightarrow> Inl err
      | Inr m \<Rightarrow>
          if m = [] then decode_docs U unmarshal docs objs
          else if GetKind U m = ''List'' then
            (case NestedSlice U m [''items''] of
               Inl err \<Rightarrow> Inl (''cannot read List items: '' @ err)
             | Inr items \<Rightarrow>
                 (case list_items items of
                    None \<Rightarrow> Inl ''List item is not an object''
                  | Some ms \<Rightarrow> decode_docs U unmarshal docs (objs @ ms)))
          else decode_docs U unmarshal docs (objs @ [m]))"

definition decodeManifest :: "('w, 'c, 'q) executor \<Rightarrow> bytes \<Rightarrow> string + jobj list" where
  "decodeManifest e payload =
     decode_docs (ex_U e) (ex_yaml_unmarshal e) (ex_yaml_read e payload) []"

definition gvr_fallback :: "('w, 'c, 'q) executor \<Rightarrow> jobj \<Rightarrow> resource_ref \<Rightarrow> string + gvr \<times> bool" where
  "gvr_fallback e obj fallback =
     (case GroupVersionKind (ex_U e) obj of (grp, ver, kind) \<Rightarrow>
        if rr_Resource fallback \<noteq> '''' \<and> rr_Version fallback \<noteq> '''' then Inr (gvrOf fallback, True)
        else Inl (''cannot resolve resource type for '' @ kind @ '' '' @ Quote (GetName (ex_U e) obj) @
               '' (apiVersion '' @ Quote (ex_gv_string e grp ver) @
               ''): not in discovery and no command target''))"

definition gvrFor :: "('w, 'c, 'q) executor \<Rightarrow> jobj \<Rightarrow> resource_ref \<Rightarrow> ('w, 'c, string + gvr \<times> bool) act" where
  "gvrFor e obj fallback =
     (case GroupVersionKind (ex_U e) obj of (grp, ver, kind) \<Rightarrow>
        if ex_mapper e \<and> kind \<noteq> '''' then do {
          r \<leftarrow> ask (ex_mapping e grp kind ver);
          State_Monad.return
            (case r of
               Inr m \<Rightarrow> Inr m
             | Inl (MappingError err) \<Rightarrow> Inl err
             | Inl NoMatch \<Rightarrow> gvr_fallback e obj fallback) }
        else State_Monad.return (gvr_fallback e obj fallback))"

section \<open>Apply\<close>

definition createOrUpdate :: "('w, 'c, 'q) executor \<Rightarrow> gvr \<Rightarrow> string option \<Rightarrow> jobj \<Rightarrow> string \<Rightarrow> bool \<Rightarrow>
    ('w, 'c, api_error option) act" where
  "createOrUpdate e g ns obj op dryRun =
     api_write e dryRun (if op = ''create'' then Create g ns obj else Update g ns obj)"

text \<open>The body that is sent for an object: the manifest itself, or its overlay on the live object.\<close>

definition update_body :: "('w, 'c, 'q) executor \<Rightarrow> jobj option \<Rightarrow> jobj \<Rightarrow> jobj" where
  "update_body e live obj =
     Stamp (ex_U e)
       (case live of
          None \<Rightarrow> obj
        | Some l \<Rightarrow>
            adoptImmutableFields (ex_U e) (ex_Q e)
              (SetResourceVersion (ex_U e) (GetResourceVersion (ex_U e) l) (mergeForUpdate l obj)) l)"

definition with_defaults :: "unstr \<Rightarrow> resource_ref \<Rightarrow> jobj \<Rightarrow> jobj" where
  "with_defaults U target obj =
     (let obj1 = (if GetName U obj = '''' then SetName U (rr_Name target) obj else obj)
      in if GetNamespace U obj1 = '''' then SetNamespace U (rr_Namespace target) obj1 else obj1)"

text \<open>Dry run and write of one object; the result says whether the loop goes on.\<close>

definition apply_one :: "('w, 'c, 'q) executor \<Rightarrow> command \<Rightarrow> gvr \<Rightarrow> string option \<Rightarrow> jobj \<Rightarrow> string \<Rightarrow> string \<Rightarrow>
    ('w, 'c, bool) act" where
  "apply_one e cmd g ri body op ident = do {
     dry \<leftarrow> (if DryRunFirst (ex_cfg e) then createOrUpdate e g ri body op True else State_Monad.return None);
     case dry of
       Some err \<Rightarrow> do {
         _ \<leftarrow> fail cmd (''dry-run '' @ op @ '' of '' @ ident @ '' failed'') (ae_text err);
         State_Monad.return False }
     | None \<Rightarrow> do {
         _ \<leftarrow> (if DryRunFirst (ex_cfg e)
               then report_of StatusDryRun (''dry-run '' @ op @ '' of '' @ ident @ '' validated'')
               else State_Monad.return ());
         _ \<leftarrow> report_of StatusApplying (op @ '' '' @ ident);
         real \<leftarrow> createOrUpdate e g ri body op False;
         case real of
           Some err \<Rightarrow> do {
             _ \<leftarrow> fail cmd (op @ '' of '' @ ident @ '' failed'') (ae_text err);
             State_Monad.return False }
         | None \<Rightarrow> State_Monad.return True } }"

fun apply_objs :: "('w, 'c, 'q) executor \<Rightarrow> command \<Rightarrow> jobj list \<Rightarrow> nat \<Rightarrow> nat \<Rightarrow> ('w, 'c, unit) act" where
  "apply_objs e cmd [] created updated =
     succeed cmd (''applied '' @ dec_nat (created + updated) @ '' object(s): '' @ dec_nat created @
       '' created, '' @ dec_nat updated @ '' updated'')"
| "apply_objs e cmd (obj0 # objs) created updated =
     (let U = ex_U e; obj = with_defaults U (c_Target cmd) obj0 in do {
        r \<leftarrow> gvrFor e obj (c_Target cmd);
        case r of
          Inl err \<Rightarrow> fail cmd ''cannot resolve resource type'' err
        | Inr (g, namespaced) \<Rightarrow>
            (let ns = GetNamespace U obj; name = GetName U obj;
                 ident = GetKind U obj @ '' '' @ ns @ ''/'' @ name;
                 ri = (if namespaced then Some ns else None) in do {
               lr \<leftarrow> liveGet e g ri name;
               case lr of
                 Inl err \<Rightarrow> fail cmd (''cannot fetch live '' @ ident) err
               | Inr live \<Rightarrow> do {
                   proceed \<leftarrow> (case live of None \<Rightarrow> State_Monad.return True | Some l \<Rightarrow> checkDrift e cmd l);
                   if \<not> proceed then State_Monad.return ()
                   else do {
                     ok \<leftarrow> apply_one e cmd g ri (update_body e live obj)
                             (if live = None then ''create'' else ''update'') ident;
                     if \<not> ok then State_Monad.return ()
                     else if live = None then apply_objs e cmd objs (Suc created) updated
                     else apply_objs e cmd objs created (Suc updated) } } }) })"

definition apply_cmd :: "('w, 'c, 'q) executor \<Rightarrow> command \<Rightarrow> ('w, 'c, unit) act" where
  "apply_cmd e cmd =
     (case decodeManifest e (c_Payload cmd) of
        Inl err \<Rightarrow> fail cmd ''cannot decode payload'' err
      | Inr [] \<Rightarrow> fail cmd ''cannot decode payload'' ''payload contains no objects''
      | Inr objs \<Rightarrow> apply_objs e cmd objs 0 0)"

section \<open>Patch\<close>

text \<open>The body of the patch that records the hash; patch types are named as on the wire.\<close>

definition stamp_patch :: "string \<Rightarrow> bytes" where
  "stamp_patch h = Marshal (JObj [(''metadata'', JObj [(''annotations'', JObj [(HashAnnotation, JStr h)])])])"

definition restamp :: "('w, 'c, 'q) executor \<Rightarrow> command \<Rightarrow> ('w, 'c, unit) act" where
  "restamp e cmd =
     (let g = gvrOf (c_Target cmd); ns = rr_Namespace (c_Target cmd); name = rr_Name (c_Target cmd) in do {
        lr \<leftarrow> liveObject e g ns name;
        case lr of
          Inr (Some live) \<Rightarrow>
            (let ann = (case GetAnnotations (ex_U e) (Stamp (ex_U e) live) of None \<Rightarrow> [] | Some a \<Rightarrow> a);
                 h = (case map_of ann HashAnnotation of None \<Rightarrow> '''' | Some h \<Rightarrow> h) in do {
               _ \<leftarrow> api_write e False (Patch g (Some ns) name PatchMerge (stamp_patch h));
               State_Monad.return () })
        | _ \<Rightarrow> State_Monad.return () })"

definition patch_cmd :: "('w, 'c, 'q) executor \<Rightarrow> command \<Rightarrow> ('w, 'c, unit) act" where
  "patch_cmd e cmd =
     (let pt = c_PatchType cmd; g = gvrOf (c_Target cmd);
          ns = rr_Namespace (c_Target cmd); name = rr_Name (c_Target cmd);
          what = rr_Resource (c_Target cmd) @ '' '' @ ns @ ''/'' @ name;
          call = Patch g (Some ns) name pt (c_Payload cmd)
      in if pt \<notin> {PatchStrategic, PatchMerge, PatchJSON} then
           refuse cmd (''unsupported patch type '' @ Quote pt)
         else do {
           lr \<leftarrow> liveObject e g ns name;
           case lr of
             Inl err \<Rightarrow> fail cmd ''cannot fetch live object'' err
           | Inr None \<Rightarrow> fail cmd ''target not found'' (what @ '' does not exist'')
           | Inr (Some live) \<Rightarrow> do {
               proceed \<leftarrow> checkDrift e cmd live;
               if \<not> proceed then State_Monad.return ()
               else do {
                 dry \<leftarrow> (if DryRunFirst (ex_cfg e) then api_write e True call else State_Monad.return None);
                 case dry of
                   Some err \<Rightarrow> fail cmd ''dry-run patch failed'' (ae_text err)
                 | None \<Rightarrow> do {
                     _ \<leftarrow> (if DryRunFirst (ex_cfg e)
                           then report_of StatusDryRun (''dry-run patch of '' @ what @ '' validated'')
                           else State_Monad.return ());
                     _ \<leftarrow> report_of StatusApplying (''patch '' @ name);
                     real \<leftarrow> api_write e False call;
                     case real of
                       Some err \<Rightarrow> fail cmd ''patch failed'' (ae_text err)
                     | None \<Rightarrow> do {
                         _ \<leftarrow> restamp e cmd;
                         succeed cmd (''patched '' @ what) } } } } })"

section \<open>Delete\<close>

text \<open>An error of a delete that counts: anything but "not found".\<close>

definition delete_error :: "api_error option \<Rightarrow> string option" where
  "delete_error r = (case r of Some err \<Rightarrow> if ae_notfound err then None else Some (ae_text err) | None \<Rightarrow> None)"

definition delete_cmd :: "('w, 'c, 'q) executor \<Rightarrow> command \<Rightarrow> ('w, 'c, unit) act" where
  "delete_cmd e cmd =
     (let g = gvrOf (c_Target cmd); ns = rr_Namespace (c_Target cmd); name = rr_Name (c_Target cmd);
          what = rr_Resource (c_Target cmd) @ '' '' @ ns @ ''/'' @ name;
          call = Delete g (Some ns) name in do {
        lr \<leftarrow> liveObject e g ns name;
        case lr of
          Inl err \<Rightarrow> fail cmd ''cannot fetch live object'' err
        | Inr None \<Rightarrow> succeed cmd (what @ '' already absent'')
        | Inr (Some live) \<Rightarrow> do {
            proceed \<leftarrow> checkDrift e cmd live;
            if \<not> proceed then State_Monad.return ()
            else do {
              dry \<leftarrow> (if DryRunFirst (ex_cfg e) then api_write e True call else State_Monad.return None);
              case delete_error dry of
                Some err \<Rightarrow> fail cmd ''dry-run delete failed'' err
              | None \<Rightarrow> do {
                  _ \<leftarrow> (if DryRunFirst (ex_cfg e)
                        then report_of StatusDryRun (''dry-run delete of '' @ what @ '' validated'')
                        else State_Monad.return ());
                  _ \<leftarrow> report_of StatusApplying (''delete '' @ name);
                  real \<leftarrow> api_write e False call;
                  case delete_error real of
                    Some err \<Rightarrow> fail cmd ''delete failed'' err
                  | None \<Rightarrow> succeed cmd (''deleted '' @ what) } } } })"

section \<open>Certificate rotation\<close>

definition cert_gvr :: "string \<Rightarrow> gvr" where
  "cert_gvr res = \<lparr>g_Group = ''cert-manager.io'', g_Version = ''v1'', g_Resource = res\<rparr>"

definition certificateRequest :: "string \<Rightarrow> string \<Rightarrow> string \<Rightarrow> jobj \<Rightarrow> string list \<Rightarrow> jobj" where
  "certificateRequest crName ns name issuerRef usages =
     [(''apiVersion'', JStr ''cert-manager.io/v1''),
      (''kind'', JStr ''CertificateRequest''),
      (''metadata'', JObj
        [(''name'', JStr crName), (''namespace'', JStr ns),
         (''annotations'', JObj [(''cert-manager.io/certificate-name'', JStr name)])]),
      (''spec'', JObj [(''issuerRef'', JObj issuerRef), (''usages'', JArr (map JStr usages))])]"

definition certRotate :: "('w, 'c, 'q) executor \<Rightarrow> command \<Rightarrow> ('w, 'c, unit) act" where
  "certRotate e cmd =
     (let U = ex_U e; ns = rr_Namespace (c_Target cmd); name = rr_Name (c_Target cmd) in do {
        r \<leftarrow> api_get e (cert_gvr ''certificates'') (Some ns) name;
        case r of
          Inl err \<Rightarrow> fail cmd ''cannot fetch Certificate'' (ae_text err)
        | Inr cert \<Rightarrow>
            (case fst (NestedMap U cert [''spec'', ''issuerRef'']) of
               None \<Rightarrow> fail cmd ''Certificate has no spec.issuerRef'' (ns @ ''/'' @ name)
             | Some issuerRef \<Rightarrow> do {
                 now \<leftarrow> clock e;
                 let usages0 = NestedStringSlice U cert [''spec'', ''usages''];
                     usages = (if usages0 = [] then [''digital signature'', ''key encipherment''] else usages0);
                     crName = name @ ''-renew-'' @ FormatInt (now_Unix now);
                     call = Create (cert_gvr ''certificaterequests'') (Some ns)
                       (certificateRequest crName ns name issuerRef usages);
                     what = ''CertificateRequest '' @ ns @ ''/'' @ crName
                 in do {
                   dry \<leftarrow> (if DryRunFirst (ex_cfg e) then api_write e True call else State_Monad.return None);
                   case dry of
                     Some err \<Rightarrow> fail cmd ''dry-run create CertificateRequest failed'' (ae_text err)
                   | None \<Rightarrow> do {
                       _ \<leftarrow> (if DryRunFirst (ex_cfg e)
                             then report_of StatusDryRun (''dry-run create of '' @ what @ '' validated'')
                             else State_Monad.return ());
                       _ \<leftarrow> report_of StatusApplying (''create CertificateRequest '' @ crName);
                       real \<leftarrow> api_write e False call;
                       case real of
                         Some err \<Rightarrow> fail cmd ''create CertificateRequest failed'' (ae_text err)
                       | None \<Rightarrow> succeed cmd (''created '' @ what @ '' for Certificate '' @ name) } } }) })"

section \<open>Trace rules of the helpers\<close>

lemma emits_refuse [trace_rules]:
  "Q () [EMetric (c_Verb cmd) resultRefused, EReport StatusRefused reason '''' 0] \<Longrightarrow> emits (refuse cmd reason) Q"
  unfolding refuse_def report_of_def by (intro trace_rules) simp

lemma emits_fail [trace_rules]:
  "Q () [EMetric (c_Verb cmd) resultFailed, EReport StatusFailed (msg @ '': '' @ err) '''' 0] \<Longrightarrow>
   emits (fail cmd msg err) Q"
  unfolding fail_def report_of_def by (intro trace_rules) simp

lemma emits_succeed [trace_rules]:
  "Q () [EMetric (c_Verb cmd) resultSucceeded, EReport StatusSucceeded msg '''' 0] \<Longrightarrow>
   emits (succeed cmd msg) Q"
  unfolding succeed_def report_of_def by (intro trace_rules) simp

text \<open>When the drift gate lets a command through.\<close>

definition drift_proceeds :: "config \<Rightarrow> command \<Rightarrow> jobj \<Rightarrow> bool" where
  "drift_proceeds cfg cmd live \<longleftrightarrow>
     c_ExpectedHash cmd = '''' \<or> HashObject live = c_ExpectedHash cmd \<or>
     DriftPolicy cfg = DriftOverwrite \<or>
     DriftPolicy cfg = DriftOverwriteWithApproval \<and> c_Override cmd"

lemma emits_checkDrift [trace_rules]:
  assumes "drift_proceeds (ex_cfg e) cmd live \<Longrightarrow> Q True []"
    and "\<And>msg diff. \<not> drift_proceeds (ex_cfg e) cmd live \<Longrightarrow>
      Q False [EMetric (c_Verb cmd) resultRefused, EReport StatusRefused msg diff 0]"
  shows "emits (checkDrift e cmd live) Q"
  unfolding checkDrift_def Check_def Let_def split_def
  by (intro trace_rules; use assms in \<open>auto simp: drift_proceeds_def split: if_splits\<close>)

lemma emits_liveGet [trace_rules]:
  assumes "\<And>live. Q (Inr (Some live)) [EGet g ns name (Inr live)]"
    and "\<And>err. ae_notfound err \<Longrightarrow> Q (Inr None) [EGet g ns name (Inl err)]"
    and "\<And>err. \<not> ae_notfound err \<Longrightarrow> Q (Inl (ae_text err)) [EGet g ns name (Inl err)]"
  shows "emits (liveGet e g ns name) Q"
  unfolding liveGet_def api_get_def
  by (intro trace_rules) (use assms in \<open>auto split: sum.split\<close>)

lemma emits_liveObject [trace_rules]:
  "emits (liveGet e g (Some ns) name) Q \<Longrightarrow> emits (liveObject e g ns name) Q"
  by (simp add: liveObject_def)

lemma emits_gvrFor [trace_rules]: "(\<And>r. Q r []) \<Longrightarrow> emits (gvrFor e obj fallback) Q"
  unfolding gvrFor_def by (intro trace_rules) simp_all

lemma emits_createOrUpdate [trace_rules]:
  "(\<And>r. Q r [ECall dry (if op = ''create'' then Create g ns obj else Update g ns obj) r]) \<Longrightarrow>
   emits (createOrUpdate e g ns obj op dry) Q"
  unfolding createOrUpdate_def api_write_def by (intro trace_rules) simp

lemma emits_api_write [trace_rules]: "(\<And>r. Q r [ECall dry c r]) \<Longrightarrow> emits (api_write e dry c) Q"
  unfolding api_write_def by (intro trace_rules) simp

lemma emits_report_of [trace_rules]: "Q () [EReport st msg '''' 0] \<Longrightarrow> emits (report_of st msg) Q"
  unfolding report_of_def by (intro trace_rules)

end
