(* ===== verification/Exec_Helm.thy ===== *)
theory Exec_Helm
  imports Exec_Objects
begin

text \<open>
  The Helm handlers of \<^verbatim>\<open>internal/executor/helm.go\<close>. Helm itself is a parameter: reading values,
  initialising a configuration, loading a chart and running an action are functions of the
  environment. A handler dereferences the command's Helm block without a check; a command
  without one panics.
\<close>

section \<open>The client getter\<close>

text \<open>
  The adapter builds its discovery client and its mapper at most once and remembers the outcome,
  errors included.
\<close>

record ('d, 'm) getter =
  rg_disc :: "(string + 'd) option"
  rg_mapper :: "(string + 'm) option"

definition ToDiscoveryClient :: "(string + 'd) \<Rightarrow> ('d, 'm) getter \<Rightarrow> (string + 'd) \<times> ('d, 'm) getter" where
  "ToDiscoveryClient new g =
     (case rg_disc g of Some r \<Rightarrow> (r, g) | None \<Rightarrow> (new, g\<lparr>rg_disc := Some new\<rparr>))"

definition ToRESTMapper :: "(string + 'd) \<Rightarrow> ('d \<Rightarrow> 'm) \<Rightarrow> ('d, 'm) getter \<Rightarrow> (string + 'm) \<times> ('d, 'm) getter" where
  "ToRESTMapper new mk g =
     (case rg_mapper g of
        Some r \<Rightarrow> (r, g)
      | None \<Rightarrow>
          (let (d, g1) = ToDiscoveryClient new g;
               r = (case d of Inl err \<Rightarrow> Inl err | Inr disc \<Rightarrow> Inr (mk disc))
           in (r, g1\<lparr>rg_mapper := Some r\<rparr>)))"

section \<open>Helpers\<close>

definition helmConfig :: "('w, 'c, 'q) executor \<Rightarrow> string \<Rightarrow> ('w, 'c, string option) act" where
  "helmConfig e ns = do {
     r \<leftarrow> ask (ex_helm_init e ns);
     case r of
       Inl err \<Rightarrow> State_Monad.return (Some err)
     | Inr hasRegistry \<Rightarrow>
         if hasRegistry then State_Monad.return None else ask (ex_registry e) }"

definition parseValues :: "('w, 'c, 'q) executor \<Rightarrow> helm_spec \<Rightarrow> string + jobj" where
  "parseValues e spec =
     (if h_ValuesYAML spec = '''' then Inr []
      else case ex_helm_values e (h_ValuesYAML spec) of
        Inl err \<Rightarrow> Inl (''cannot parse values YAML: '' @ err)
      | Inr vals \<Rightarrow> Inr vals)"

definition locateChart :: "('w, 'c, 'q) executor \<Rightarrow> helm_spec \<Rightarrow> ('w, 'c, string + 'c) act" where
  "locateChart e spec =
     (let ref = h_ChartRef spec in do {
        exists \<leftarrow> ask (ex_stat e ref);
        if exists \<or> HasPrefix ref ''.'' \<or> HasPrefix ref ''/'' then ask (ex_load e ref)
        else do {
          r \<leftarrow> ask (ex_locate e (h_Version spec) ref);
          case r of
            Inl err \<Rightarrow> State_Monad.return (Inl err)
          | Inr path \<Rightarrow> ask (ex_load e path) } })"

definition sanitizeHelmErr :: "api_error \<Rightarrow> string" where
  "sanitizeHelmErr err = first_line (ae_text err)"

section \<open>Handlers\<close>

text \<open>What install and upgrade have in common once the chart is there.\<close>

definition helm_run :: "('w, 'c, 'q) executor \<Rightarrow> command \<Rightarrow> string \<Rightarrow> string \<Rightarrow> string \<Rightarrow> string \<Rightarrow> 'c write_call \<Rightarrow>
    ('w, 'c, unit) act" where
  "helm_run e cmd verb what done_what rel call = do {
     dry \<leftarrow> (if DryRunFirst (ex_cfg e) then api_write e True call else State_Monad.return None);
     case dry of
       Some err \<Rightarrow> fail cmd (''helm-'' @ verb @ '' dry-run'') (sanitizeHelmErr err)
     | None \<Rightarrow> do {
         _ \<leftarrow> (if DryRunFirst (ex_cfg e)
               then report_of StatusDryRun (''dry-run '' @ verb @ '' of '' @ what @ '' validated'')
               else State_Monad.return ());
         _ \<leftarrow> report_of StatusApplying (''helm '' @ verb @ '' '' @ rel);
         real \<leftarrow> api_write e False call;
         case real of
           Some err \<Rightarrow> fail cmd (''helm-'' @ verb) (sanitizeHelmErr err)
         | None \<Rightarrow> succeed cmd (done_what @ '' '' @ what) } }"

definition helmInstall :: "('w, 'c, 'q) executor \<Rightarrow> command \<Rightarrow> ('w, 'c, unit) act" where
  "helmInstall e cmd =
     (case c_Helm cmd of
        None \<Rightarrow> emit EPanic
      | Some h \<Rightarrow>
          (case parseValues e h of
             Inl err \<Rightarrow> fail cmd ''helm-install'' err
           | Inr vals \<Rightarrow> do {
               cfg \<leftarrow> helmConfig e (h_Namespace h);
               case cfg of
                 Some err \<Rightarrow> fail cmd ''helm-install'' err
               | None \<Rightarrow> do {
                   cr \<leftarrow> locateChart e h;
                   case cr of
                     Inl err \<Rightarrow> fail cmd ''cannot locate chart'' err
                   | Inr chrt \<Rightarrow>
                       helm_run e cmd ''install''
                         (''release '' @ Quote (h_ReleaseName h) @ '' in '' @ h_Namespace h) ''installed''
                         (h_ReleaseName h) (HelmInstall (h_Namespace h) (h_ReleaseName h) chrt vals) } }))"

definition helmUpgrade :: "('w, 'c, 'q) executor \<Rightarrow> command \<Rightarrow> ('w, 'c, unit) act" where
  "helmUpgrade e cmd =
     (case c_Helm cmd of
        None \<Rightarrow> emit EPanic
      | Some h \<Rightarrow>
          (case parseValues e h of
             Inl err \<Rightarrow> fail cmd ''helm-upgrade'' err
           | Inr vals \<Rightarrow> do {
               cfg \<leftarrow> helmConfig e (h_Namespace h);
               case cfg of
                 Some err \<Rightarrow> fail cmd ''helm-upgrade'' err
               | None \<Rightarrow> do {
                   st \<leftarrow> ask (ex_helm_status e (h_Namespace h) (h_ReleaseName h));
                   case st of
                     Some err \<Rightarrow> fail cmd ''helm-upgrade''
                       (''release '' @ Quote (h_ReleaseName h) @ '' not found in namespace '' @ Quote (h_Namespace h))
                   | None \<Rightarrow> do {
                       cr \<leftarrow> locateChart e h;
                       case cr of
                         Inl err \<Rightarrow> fail cmd ''cannot locate chart'' err
                       | Inr chrt \<Rightarrow>
                           helm_run e cmd ''upgrade''
                             (''release '' @ Quote (h_ReleaseName h) @ '' in '' @ h_Namespace h) ''upgraded''
                             (h_ReleaseName h) (HelmUpgrade (h_Namespace h) (h_ReleaseName h) chrt vals) } } }))"

definition helmUninstall :: "('w, 'c, 'q) executor \<Rightarrow> command \<Rightarrow> ('w, 'c, unit) act" where
  "helmUninstall e cmd =
     (case c_Helm cmd of
        None \<Rightarrow> emit EPanic
      | Some h \<Rightarrow> do {
          cfg \<leftarrow> helmConfig e (h_Namespace h);
          case cfg of
            Some err \<Rightarrow> fail cmd ''helm-uninstall'' err
          | None \<Rightarrow> do {
              _ \<leftarrow> report_of StatusApplying (''helm uninstall '' @ h_ReleaseName h);
              real \<leftarrow> api_write e False (HelmUninstall (h_Namespace h) (h_ReleaseName h));
              case real of
                Some err \<Rightarrow> fail cmd ''helm-uninstall'' (sanitizeHelmErr err)
              | None \<Rightarrow> succeed cmd (''uninstalled release '' @ Quote (h_ReleaseName h) @ '' from '' @ h_Namespace h) } })"

end
