(* ===== verification/Executor.thy ===== *)
theory Executor
  imports Exec_Drain Exec_Helm
begin

text \<open>
  The dispatcher of \<^verbatim>\<open>internal/executor\<close>, and what holds of every run of every handler.
\<close>

section \<open>HandleCommand\<close>

definition HandleCommand :: "nat \<Rightarrow> ('w, 'c, 'q) executor \<Rightarrow> command \<Rightarrow> ('w, 'c, unit) act" where
  "HandleCommand fuel e cmd = do {
     _ \<leftarrow> report_of StatusValidating '''';
     let verb = c_Verb cmd in
     if verb = VerbApply then apply_cmd e cmd
     else if verb = VerbPatch then patch_cmd e cmd
     else if verb = VerbDelete then delete_cmd e cmd
     else if verb = VerbDrainNode then drainNode fuel e cmd
     else if verb = VerbUncordonNode then uncordonNode e cmd
     else if verb = VerbHelmInstall then helmInstall e cmd
     else if verb = VerbHelmUpgrade then helmUpgrade e cmd
     else if verb = VerbHelmUninstall then helmUninstall e cmd
     else if verb = VerbCertRotate then certRotate e cmd
     else if verb = VerbClusterUpgrade then
       refuse cmd ''cluster-upgrade is not supported by this agent version''
     else refuse cmd (''unknown verb '' @ Quote verb) }"

section \<open>The shape of a run\<close>

abbreviation terminal_statuses :: "string set" where
  "terminal_statuses \<equiv> {StatusSucceeded, StatusFailed, StatusRefused}"

text \<open>
  A lifecycle for a verb: reports that are not terminal, with a percentage between 0 and 100, among
  interactions with the cluster, and at the end the metric of the verb and the terminal report it
  counts. The exceptions are a stalled drain, which ends with a progress report, a Helm command
  without a Helm block, which panics, and the bound on eviction retries.
\<close>

fun lifecycle :: "string \<Rightarrow> 'c effect list \<Rightarrow> bool" where
  "lifecycle v [] \<longleftrightarrow> False"
| "lifecycle v (e # t) \<longleftrightarrow>
     (case e of
        EMetric v' res \<Rightarrow> v' = v \<and> res \<in> terminal_statuses \<and> (\<exists>msg diff. t = [EReport res msg diff 0])
      | EReport st msg diff pct \<Rightarrow>
          st \<notin> terminal_statuses \<and> 0 \<le> pct \<and> pct \<le> 100 \<and>
          (t = [] \<and> v = VerbDrainNode \<and> st = StatusProgress \<or> lifecycle v t)
      | EPanic \<Rightarrow> t = [] \<and> v \<in> {VerbHelmInstall, VerbHelmUpgrade, VerbHelmUninstall}
      | EFuel \<Rightarrow> t = [] \<and> v = VerbDrainNode
      | _ \<Rightarrow> lifecycle v t)"

lemmas object_handlers = apply_cmd_def patch_cmd_def restamp_def delete_cmd_def certRotate_def clock_def
  api_get_def

lemmas helm_handlers = helmInstall_def helmUpgrade_def helmUninstall_def helm_run_def helmConfig_def
  locateChart_def

lemmas node_handlers = drainNode_def uncordonNode_def node_get_def pod_list_def clock_def

lemma lifecycle_apply_objs:
  "emits (apply_objs e cmd objs created updated) (\<lambda>_ t. lifecycle (c_Verb cmd) t)"
proof (induction objs arbitrary: created updated)
  case Nil
  show ?case
    unfolding apply_objs.simps by (rule trace_rules | (simp; fail))+
next
  case (Cons obj objs)
  note IH = Cons.IH [THEN emits_conseq]
  show ?case
    unfolding apply_objs.simps apply_one_def
    by (rule trace_consts | rule IH | rule trace_rules | (simp; fail))+
qed

lemma lifecycle_objects:
  "emits (apply_cmd e cmd) (\<lambda>_ t. lifecycle (c_Verb cmd) t)"
  "emits (patch_cmd e cmd) (\<lambda>_ t. lifecycle (c_Verb cmd) t)"
  "emits (delete_cmd e cmd) (\<lambda>_ t. lifecycle (c_Verb cmd) t)"
  "emits (certRotate e cmd) (\<lambda>_ t. lifecycle (c_Verb cmd) t)"
  unfolding object_handlers
  by (rule trace_consts | rule lifecycle_apply_objs | rule trace_rules | (simp; fail))+

lemma lifecycle_helm:
  assumes "c_Verb cmd \<in> {VerbHelmInstall, VerbHelmUpgrade, VerbHelmUninstall}"
  shows "emits (helmInstall e cmd) (\<lambda>_ t. lifecycle (c_Verb cmd) t)"
    and "emits (helmUpgrade e cmd) (\<lambda>_ t. lifecycle (c_Verb cmd) t)"
    and "emits (helmUninstall e cmd) (\<lambda>_ t. lifecycle (c_Verb cmd) t)"
  unfolding helm_handlers
  by (rule trace_consts | rule trace_rules | (use assms in simp; fail))+

text \<open>The trace of the eviction loop: attempts, clock readings and waits, then how it ended.\<close>

definition loop_event :: "pod \<Rightarrow> 'c effect \<Rightarrow> bool" where
  "loop_event p x \<longleftrightarrow>
     (\<exists>r. x = ECall False (Evict (p_Namespace p) (p_Name p)) r) \<or> (\<exists>i. x = ENow i) \<or> (\<exists>w. x = EWait w)"

definition loop_end :: "command \<Rightarrow> int \<Rightarrow> 'c effect list \<Rightarrow> bool" where
  "loop_end cmd pct z \<longleftrightarrow>
     z = [EFuel] \<or> (\<exists>msg. z = [EReport StatusProgress msg '''' pct]) \<or>
     (\<exists>msg. z = [EMetric (c_Verb cmd) resultFailed, EReport StatusFailed msg '''' 0])"

definition loop_trace :: "command \<Rightarrow> pod \<Rightarrow> int \<Rightarrow> bool \<Rightarrow> 'c effect list \<Rightarrow> bool" where
  "loop_trace cmd p pct ok t \<longleftrightarrow>
     (\<exists>a z. t = a @ z \<and> (\<forall>x \<in> set a. loop_event p x) \<and> (if ok then z = [] else loop_end cmd pct z))"

lemma loop_trace_prefix:
  "loop_trace cmd p pct ok t \<Longrightarrow> \<forall>x \<in> set b. loop_event p x \<Longrightarrow> loop_trace cmd p pct ok (b @ t)"
  unfolding loop_trace_def by (metis (no_types, lifting) UnE append.assoc set_append)

lemma loop_trace_simps:
  "\<forall>x \<in> set b. loop_event p x \<Longrightarrow> loop_trace cmd p pct True b"
  "loop_end cmd pct z \<Longrightarrow> \<forall>x \<in> set b. loop_event p x \<Longrightarrow> loop_trace cmd p pct False (b @ z)"
  unfolding loop_trace_def by auto

lemma evict_loop_trace:
  fixes e :: "('w, 'c, 'q) executor"
  shows "emits (evict_loop fuel e cmd p lastSuccess evicted tot)
     (loop_trace cmd p (int (evicted * 100 div tot)))"
proof (induction fuel)
  case 0
  have "loop_trace cmd p pct False ([EFuel] @ [])" for pct
    using loop_trace_simps(2) [of cmd pct "[EFuel]" "[]"] by (simp add: loop_end_def)
  then show ?case
    unfolding evict_loop.simps by (intro trace_rules)
next
  case (Suc fuel)
  let ?b = "\<lambda>r now w. [ECall False (Evict (p_Namespace p) (p_Name p)) r, ENow now, EWait w] :: 'c effect list"
  have ev: "\<forall>x \<in> set (?b r now w). loop_event p x"
    "\<forall>x \<in> set (take 2 (?b r now w)). loop_event p x"
    "\<forall>x \<in> set (take 1 (?b r now w)). loop_event p x" for r now w
    by (simp_all add: loop_event_def)
  have IH: "emits (evict_loop fuel e cmd p lastSuccess evicted tot)
      (\<lambda>ok t. loop_trace cmd p (int (evicted * 100 div tot)) ok
        ([ECall False (Evict (p_Namespace p) (p_Name p)) r] @ [ENow now] @ [EWait w] @ t))" for r now w
    using Suc by (rule emits_conseq) (use loop_trace_prefix [OF _ ev(1)] in simp)
  show ?case
    unfolding evict_loop.simps clock_def wait2_def report_progress_def
    by (rule trace_consts | rule IH | rule trace_rules |
        (use loop_trace_simps(1) [OF ev(3)] loop_trace_simps(2) [OF _ ev(1)] loop_trace_simps(2) [OF _ ev(2)]
         in \<open>simp add: loop_end_def numeral_2_eq_2\<close>; fail))+
qed

text \<open>
  A property of traces that survives a drain, given the pods \<open>P\<close> and the number of those already
  evicted: what a step of the drain puts in front of a trace, and how a drain can end. Whatever
  satisfies this holds of every drain.
\<close>

locale drain_monitor =
  fixes M :: "nat \<Rightarrow> 'c effect list \<Rightarrow> bool"
    and cfg :: config
    and node :: string
    and cmd :: command
    and P :: "pod set"
    and tot :: nat
  assumes attempt: "p \<in> P \<Longrightarrow> evictable cfg node p \<Longrightarrow> loop_event p x \<Longrightarrow> M n u \<Longrightarrow> M n (x # u)"
    and stop: "n \<le> tot \<Longrightarrow> loop_end cmd (int (n * 100 div tot)) z \<Longrightarrow> M n z"
    and progress: "n < tot \<Longrightarrow> M (Suc n) u \<Longrightarrow> M n (ENow now # EDrain node (int (Suc n * 100 div tot)) #
      EReport StatusProgress msg '''' (int (Suc n * 100 div tot)) # u)"
    and finish: "M tot [EDrainClear node, EMetric (c_Verb cmd) resultSucceeded, EReport StatusSucceeded msg '''' 0]"
begin

lemma attempts:
  "p \<in> P \<Longrightarrow> evictable cfg node p \<Longrightarrow> \<forall>x \<in> set a. loop_event p x \<Longrightarrow> M n u \<Longrightarrow> M n (a @ u)"
  by (induction a) (simp_all add: attempt [of p])

lemma drain_round:
  fixes e :: "('w, 'c, 'q) executor"
  assumes "p \<in> P" "evictable cfg node p" "evicted \<le> tot" "emits K (\<lambda>_ u. M evicted u)"
  shows "emits (do {
      ok \<leftarrow> evict_loop fuel e cmd p lastSuccess evicted tot;
      if \<not> ok then State_Monad.return () else K }) (\<lambda>_ t. M evicted t)"
proof (rule emits_bind, rule evict_loop_trace [THEN emits_conseq], rule emits_if)
  fix ok and t :: "'c effect list"
  assume "loop_trace cmd p (int (evicted * 100 div tot)) ok t"
  then obtain a z where t: "t = a @ z" "\<forall>x \<in> set a. loop_event p x"
    "if ok then z = [] else loop_end cmd (int (evicted * 100 div tot)) z"
    by (auto simp: loop_trace_def)
  note a = attempts [OF assms(1,2) t(2)]
  show "emits (State_Monad.return ()) (\<lambda>y u. M evicted (t @ u))" if "\<not> ok"
    using t that a [OF stop [OF assms(3)]] by (intro trace_rules) simp
  show "emits K (\<lambda>y u. M evicted (t @ u))" if "\<not> \<not> ok"
    using assms(4) by (rule emits_conseq) (use t that a in simp)
qed

lemma drain_pods:
  fixes e :: "('w, 'c, 'q) executor"
  assumes "ex_cfg e = cfg" "set ps \<subseteq> P" "evicted + length (filter (evictable cfg node) ps) = tot"
  shows "emits (drain_pods fuel e cmd node tot ps lastSuccess evicted) (\<lambda>_ t. M evicted t)"
  using assms(2,3)
proof (induction ps arbitrary: lastSuccess evicted)
  case Nil
  then show ?case
    unfolding drain_pods.simps by - (rule trace_rules | (use finish in simp; fail))+
next
  case (Cons p ps)
  show ?case
  proof (cases "evictable cfg node p")
    case False
    with Cons assms(1) show ?thesis by simp
  next
    case True
    have n: "Suc evicted + length (filter (evictable cfg node) ps) = tot"
      using Cons.prems True by simp
    have keep: "(if \<not> evictable (ex_cfg e) node p then a else b) = b" for a b :: "('w, 'c, unit) act"
      using True assms(1) by simp
    have p: "p \<in> P" and sub: "set ps \<subseteq> P" using Cons.prems by simp_all
    note IH = Cons.IH [OF sub n, THEN emits_conseq]
    show ?thesis
      unfolding drain_pods.simps keep clock_def report_progress_def Let_def
      by (rule drain_round [OF p True], use n in simp)
        (rule IH | rule trace_rules | (use n progress [of evicted] in simp; fail))+
  qed
qed

lemma drain_all:
  fixes e :: "('w, 'c, 'q) executor"
  assumes "ex_cfg e = cfg" "set pods \<subseteq> P" "tot = length (filter (evictable cfg node) pods)"
  shows "emits (drain_pods fuel e cmd node tot pods now 0) (\<lambda>_ t. M 0 t)"
  by (rule drain_pods) (use assms in simp_all)

end

lemma percent_bounds: "n \<le> tot \<Longrightarrow> n * 100 div tot \<le> (100 :: nat)"
proof -
  assume "n \<le> tot"
  then have "n * 100 div tot \<le> tot * 100 div tot" by (intro div_le_mono mult_le_mono1)
  also have "\<dots> \<le> 100" by (cases "tot = 0") simp_all
  finally show ?thesis .
qed

interpretation lifecycle_drain: drain_monitor
  "\<lambda>_ t. c_Verb cmd = VerbDrainNode \<longrightarrow> lifecycle VerbDrainNode t" cfg node cmd UNIV tot
proof
  show "c_Verb cmd = VerbDrainNode \<longrightarrow> lifecycle VerbDrainNode (x # u)"
    if "loop_event p x" "c_Verb cmd = VerbDrainNode \<longrightarrow> lifecycle VerbDrainNode u" for p x and u :: "'c effect list"
    using that unfolding loop_event_def by (elim disjE exE) simp_all
next
  fix n z
  assume "n \<le> tot" "loop_end cmd (int (n * 100 div tot)) z"
  then show "c_Verb cmd = VerbDrainNode \<longrightarrow> lifecycle VerbDrainNode z"
    using percent_bounds [of n tot] unfolding loop_end_def by (elim disjE exE) simp_all
qed (use percent_bounds [of "Suc _" tot] in simp_all)

lemma lifecycle_nodes:
  "c_Verb cmd = VerbDrainNode \<Longrightarrow> emits (drainNode fuel e cmd) (\<lambda>_ t. lifecycle (c_Verb cmd) t)"
  "emits (uncordonNode e cmd) (\<lambda>_ t. lifecycle (c_Verb cmd) t)"
proof -
  assume v: "c_Verb cmd = VerbDrainNode"
  note pods = lifecycle_drain.drain_all [OF refl subset_UNIV refl, THEN emits_conseq]
  show "emits (drainNode fuel e cmd) (\<lambda>_ t. lifecycle (c_Verb cmd) t)"
    unfolding node_handlers Let_def
    by (rule trace_consts | rule pods | rule trace_rules | (use v in simp; fail))+
next
  show "emits (uncordonNode e cmd) (\<lambda>_ t. lifecycle (c_Verb cmd) t)"
    unfolding node_handlers by (rule trace_consts | rule trace_rules | (simp; fail))+
qed

text \<open>A property of traces holds of every command if it holds of every handler.\<close>

lemma emits_HandleCommand:
  assumes "c_Verb cmd = VerbApply \<Longrightarrow> emits (apply_cmd e cmd) (\<lambda>_ u. M u)"
    and "c_Verb cmd = VerbPatch \<Longrightarrow> emits (patch_cmd e cmd) (\<lambda>_ u. M u)"
    and "c_Verb cmd = VerbDelete \<Longrightarrow> emits (delete_cmd e cmd) (\<lambda>_ u. M u)"
    and "c_Verb cmd = VerbDrainNode \<Longrightarrow> emits (drainNode fuel e cmd) (\<lambda>_ u. M u)"
    and "c_Verb cmd = VerbUncordonNode \<Longrightarrow> emits (uncordonNode e cmd) (\<lambda>_ u. M u)"
    and "c_Verb cmd = VerbHelmInstall \<Longrightarrow> emits (helmInstall e cmd) (\<lambda>_ u. M u)"
    and "c_Verb cmd = VerbHelmUpgrade \<Longrightarrow> emits (helmUpgrade e cmd) (\<lambda>_ u. M u)"
    and "c_Verb cmd = VerbHelmUninstall \<Longrightarrow> emits (helmUninstall e cmd) (\<lambda>_ u. M u)"
    and "c_Verb cmd = VerbCertRotate \<Longrightarrow> emits (certRotate e cmd) (\<lambda>_ u. M u)"
    and "\<And>reason. M [EMetric (c_Verb cmd) resultRefused, EReport StatusRefused reason '''' 0]"
  shows "emits (HandleCommand fuel e cmd) (\<lambda>_ t. \<exists>u. t = EReport StatusValidating '''' '''' 0 # u \<and> M u)"
proof -
  have dispatch: "emits m (\<lambda>_ u. M u) \<Longrightarrow> emits m (\<lambda>y u. \<exists>u'. [EReport StatusValidating [] [] 0] @ u =
      EReport StatusValidating [] [] 0 # u' \<and> M u')" for m
    by (erule emits_conseq) simp
  show ?thesis
    unfolding HandleCommand_def Let_def
    by (rule emits_bind, rule emits_report_of, rule dispatch) (intro emits_if emits_refuse assms)
qed

lemmas lifecycle_handlers = lifecycle_objects lifecycle_nodes lifecycle_helm

lemma emits_lifecycle:
  "emits (HandleCommand fuel e cmd)
     (\<lambda>_ t. \<exists>u. t = EReport StatusValidating '''' '''' 0 # u \<and> lifecycle (c_Verb cmd) u)"
  by (rule emits_HandleCommand) (rule lifecycle_handlers | (simp; fail))+

section \<open>Properties\<close>


end
