(* ===== verification/Exec_Policy.thy ===== *)
theory Exec_Policy
  imports Executor
begin

text \<open>
  Safety of the executor's writes, as properties of the traces of its handlers: dry runs come
  first, the drift gate is respected, and commands stay within their target.
\<close>

section \<open>Dry runs\<close>

text \<open>
  The writes the executor makes without a dry run: cordoning, evictions, the removal of a release,
  and the patch that records the hash after a successful patch.
\<close>

definition dry_exempt :: "'c write_call \<Rightarrow> bool" where
  "dry_exempt c \<longleftrightarrow>
     (case c of
        NodePatch _ _ \<Rightarrow> True
      | Evict _ _ \<Rightarrow> True
      | HelmUninstall _ _ \<Rightarrow> True
      | Patch _ _ _ pt body \<Rightarrow> pt = PatchMerge \<and> (\<exists>h. body = stamp_patch h)
      | _ \<Rightarrow> False)"

definition dry_accepted :: "'c write_call \<Rightarrow> api_error option \<Rightarrow> bool" where
  "dry_accepted c r \<longleftrightarrow>
     (case r of None \<Rightarrow> True | Some err \<Rightarrow> ae_notfound err \<and> (\<exists>g ns n. c = Delete g ns n))"

text \<open>
  Every other write is preceded by a dry run of the very same call that the API server accepted, and
  each dry run covers one write only. \<open>ok\<close> is the call whose dry run was accepted last.
\<close>

fun dry_first :: "'c write_call option \<Rightarrow> 'c effect list \<Rightarrow> bool" where
  "dry_first ok [] \<longleftrightarrow> True"
| "dry_first ok (x # t) \<longleftrightarrow>
     (case x of
        ECall dry c r \<Rightarrow>
          if dry then dry_first (if dry_accepted c r then Some c else None) t
          else (ok = Some c \<or> dry_exempt c) \<and> dry_first None t
      | _ \<Rightarrow> dry_first ok t)"

lemma dry_exempt_simps [simp]:
  "dry_exempt (NodePatch n b)" "dry_exempt (Evict ns n)" "dry_exempt (HelmUninstall ns n)"
  "dry_exempt (Patch g ri n PatchMerge (stamp_patch h))"
  by (auto simp: dry_exempt_def)

lemma dry_accepted_None [simp]: "dry_accepted c None"
  by (simp add: dry_accepted_def)

lemma dry_accepted_Delete: "delete_error r = None \<Longrightarrow> dry_accepted (Delete g ri n) r"
  by (auto simp: dry_accepted_def delete_error_def split: option.splits if_splits)

lemma dry_first_apply_objs:
  assumes "DryRunFirst (ex_cfg e)"
  shows "emits (apply_objs e cmd objs created updated) (\<lambda>_ t. \<forall>ok. dry_first ok t)"
proof (induction objs arbitrary: created updated)
  case Nil
  show ?case
    unfolding apply_objs.simps by (rule trace_rules | (simp; fail))+
next
  case (Cons obj objs)
  note IH = Cons.IH [THEN emits_conseq]
  show ?case
    unfolding apply_objs.simps apply_one_def
    by (rule trace_consts | rule IH | rule trace_rules | (use assms in simp; fail))+
qed

lemma dry_first_objects:
  assumes "DryRunFirst (ex_cfg e)"
  shows "emits (apply_cmd e cmd) (\<lambda>_ t. dry_first None t)"
    and "emits (patch_cmd e cmd) (\<lambda>_ t. dry_first None t)"
    and "emits (delete_cmd e cmd) (\<lambda>_ t. dry_first None t)"
    and "emits (certRotate e cmd) (\<lambda>_ t. dry_first None t)"
proof -
  note objs = dry_first_apply_objs [OF assms, THEN emits_conseq]
  show "emits (apply_cmd e cmd) (\<lambda>_ t. dry_first None t)"
    unfolding object_handlers by (rule trace_consts | rule objs | rule trace_rules | (simp; fail))+
  show "emits (patch_cmd e cmd) (\<lambda>_ t. dry_first None t)"
    unfolding object_handlers by (rule trace_consts | rule trace_rules | (use assms in simp; fail))+
  show "emits (delete_cmd e cmd) (\<lambda>_ t. dry_first None t)"
    unfolding object_handlers
    by (rule trace_consts | rule trace_rules | (simp add: assms dry_accepted_Delete; fail))+
  show "emits (certRotate e cmd) (\<lambda>_ t. dry_first None t)"
    unfolding object_handlers by (rule trace_consts | rule trace_rules | (use assms in simp; fail))+
qed

lemma dry_first_helm:
  assumes "DryRunFirst (ex_cfg e)"
  shows "emits (helmInstall e cmd) (\<lambda>_ t. dry_first None t)"
    and "emits (helmUpgrade e cmd) (\<lambda>_ t. dry_first None t)"
    and "emits (helmUninstall e cmd) (\<lambda>_ t. dry_first None t)"
  unfolding helm_handlers
  by (rule trace_consts | rule trace_rules | (use assms in simp; fail))+

interpretation dry_first_drain: drain_monitor "\<lambda>_ t. dry_first None t" cfg node cmd UNIV tot
proof
  show "dry_first None (x # u)" if "loop_event p x" "dry_first None u" for p x and u :: "'c effect list"
    using that unfolding loop_event_def by (elim disjE exE) simp_all
  show "dry_first None z" if "loop_end cmd pct z" for pct and z :: "'c effect list"
    using that unfolding loop_end_def by (elim disjE exE) simp_all
qed simp_all

lemma dry_first_nodes:
  "emits (drainNode fuel e cmd) (\<lambda>_ t. dry_first None t)"
  "emits (uncordonNode e cmd) (\<lambda>_ t. dry_first None t)"
proof -
  note pods = dry_first_drain.drain_all [OF refl subset_UNIV refl, THEN emits_conseq]
  show "emits (drainNode fuel e cmd) (\<lambda>_ t. dry_first None t)"
    unfolding node_handlers Let_def
    by (rule trace_consts | rule pods | rule trace_rules | (simp; fail))+
  show "emits (uncordonNode e cmd) (\<lambda>_ t. dry_first None t)"
    unfolding node_handlers by (rule trace_consts | rule trace_rules | (simp; fail))+
qed

section \<open>The drift gate\<close>

text \<open>
  Every write follows a read of the object that found it absent, or that found a state the drift
  policy lets the command overwrite; the patch that records the hash is exempt. The flag says
  whether the last read allows writing.
\<close>

definition hash_patch :: "'c write_call \<Rightarrow> bool" where
  "hash_patch c \<longleftrightarrow> (\<exists>g ns n h. c = Patch g ns n PatchMerge (stamp_patch h))"

fun gated :: "config \<Rightarrow> command \<Rightarrow> bool \<Rightarrow> 'c effect list \<Rightarrow> bool" where
  "gated cfg cmd open [] \<longleftrightarrow> True"
| "gated cfg cmd open (x # t) \<longleftrightarrow>
     (case x of
        EGet _ _ _ (Inr live) \<Rightarrow> gated cfg cmd (drift_proceeds cfg cmd live) t
      | EGet _ _ _ (Inl err) \<Rightarrow> gated cfg cmd (ae_notfound err) t
      | ECall _ c _ \<Rightarrow> (open \<or> hash_patch c) \<and> gated cfg cmd open t
      | _ \<Rightarrow> gated cfg cmd open t)"

lemma hash_patch_stamp [simp]: "hash_patch (Patch g ns n PatchMerge (stamp_patch h))"
  by (auto simp: hash_patch_def)

lemma gated_apply_objs:
  "emits (apply_objs e cmd objs created updated) (\<lambda>_ t. \<forall>op. gated (ex_cfg e) cmd op t)"
proof (induction objs arbitrary: created updated)
  case Nil
  show ?case
    unfolding apply_objs.simps by (rule trace_rules | (simp; fail))+
next
  case (Cons obj objs)
  note IH = Cons.IH [THEN emits_conseq]
  show ?case
    unfolding apply_objs.simps apply_one_def
    by (rule trace_consts | rule IH | rule trace_rules | (simp; fail))+
qed

lemma gated_objects:
  "emits (apply_cmd e cmd) (\<lambda>_ t. gated (ex_cfg e) cmd False t)"
  "emits (patch_cmd e cmd) (\<lambda>_ t. gated (ex_cfg e) cmd False t)"
  "emits (delete_cmd e cmd) (\<lambda>_ t. gated (ex_cfg e) cmd False t)"
proof -
  note objs = gated_apply_objs [THEN emits_conseq]
  show "emits (apply_cmd e cmd) (\<lambda>_ t. gated (ex_cfg e) cmd False t)"
    unfolding object_handlers by (rule trace_consts | rule objs | rule trace_rules | (simp; fail))+
  show "emits (patch_cmd e cmd) (\<lambda>_ t. gated (ex_cfg e) cmd False t)"
    "emits (delete_cmd e cmd) (\<lambda>_ t. gated (ex_cfg e) cmd False t)"
    unfolding object_handlers by (rule trace_consts | rule trace_rules | (simp; fail))+
qed

section \<open>Writes stay within the command\<close>

text \<open>The writes a command may cause, by its verb and its target.\<close>

definition write_allowed :: "command \<Rightarrow> 'c write_call \<Rightarrow> bool" where
  "write_allowed cmd c \<longleftrightarrow>
     (let t = c_Target cmd; v = c_Verb cmd in
      case c of
        Create g ns _ \<Rightarrow> v = VerbApply \<or>
          v = VerbCertRotate \<and> g = cert_gvr ''certificaterequests'' \<and> ns = Some (rr_Namespace t)
      | Update _ _ _ \<Rightarrow> v = VerbApply
      | Patch g ns n _ _ \<Rightarrow> v = VerbPatch \<and> g = gvrOf t \<and> ns = Some (rr_Namespace t) \<and> n = rr_Name t
      | Delete g ns n \<Rightarrow> v = VerbDelete \<and> g = gvrOf t \<and> ns = Some (rr_Namespace t) \<and> n = rr_Name t
      | NodePatch n b \<Rightarrow> n = rr_Name t \<and>
          (v = VerbDrainNode \<and> b = cordon_patch True \<or> v = VerbUncordonNode \<and> b = cordon_patch False)
      | Evict _ _ \<Rightarrow> v = VerbDrainNode
      | HelmInstall ns r _ _ \<Rightarrow> v = VerbHelmInstall \<and>
          (\<exists>h. c_Helm cmd = Some h \<and> ns = h_Namespace h \<and> r = h_ReleaseName h)
      | HelmUpgrade ns r _ _ \<Rightarrow> v = VerbHelmUpgrade \<and>
          (\<exists>h. c_Helm cmd = Some h \<and> ns = h_Namespace h \<and> r = h_ReleaseName h)
      | HelmUninstall ns r \<Rightarrow> v = VerbHelmUninstall \<and>
          (\<exists>h. c_Helm cmd = Some h \<and> ns = h_Namespace h \<and> r = h_ReleaseName h))"

definition confined :: "command \<Rightarrow> 'c effect list \<Rightarrow> bool" where
  "confined cmd t \<longleftrightarrow> (\<forall>x \<in> set t. case x of ECall _ c _ \<Rightarrow> write_allowed cmd c | _ \<Rightarrow> True)"

lemma confined_append [simp]: "confined cmd (t @ u) \<longleftrightarrow> confined cmd t \<and> confined cmd u"
  by (auto simp: confined_def)

lemma confined_apply_objs:
  "c_Verb cmd = VerbApply \<Longrightarrow> emits (apply_objs e cmd objs created updated) (\<lambda>_ t. confined cmd t)"
proof (induction objs arbitrary: created updated)
  case Nil
  show ?case
    unfolding apply_objs.simps by (rule trace_rules | (simp add: confined_def; fail))+
next
  case (Cons obj objs)
  note IH = Cons.IH [OF Cons.prems, THEN emits_conseq]
  show ?case
    unfolding apply_objs.simps apply_one_def
    by (rule trace_consts | rule IH | rule trace_rules |
        (simp add: confined_def write_allowed_def Cons.prems; fail))+
qed

lemma confined_objects:
  "c_Verb cmd = VerbApply \<Longrightarrow> emits (apply_cmd e cmd) (\<lambda>_ t. confined cmd t)"
  "c_Verb cmd = VerbPatch \<Longrightarrow> emits (patch_cmd e cmd) (\<lambda>_ t. confined cmd t)"
  "c_Verb cmd = VerbDelete \<Longrightarrow> emits (delete_cmd e cmd) (\<lambda>_ t. confined cmd t)"
  "c_Verb cmd = VerbCertRotate \<Longrightarrow> emits (certRotate e cmd) (\<lambda>_ t. confined cmd t)"
  unfolding object_handlers
  by (rule trace_consts | rule confined_apply_objs | rule trace_rules |
      (simp add: confined_def write_allowed_def; fail))+

lemma confined_helm:
  "c_Verb cmd = VerbHelmInstall \<Longrightarrow> emits (helmInstall e cmd) (\<lambda>_ t. confined cmd t)"
  "c_Verb cmd = VerbHelmUpgrade \<Longrightarrow> emits (helmUpgrade e cmd) (\<lambda>_ t. confined cmd t)"
  "c_Verb cmd = VerbHelmUninstall \<Longrightarrow> emits (helmUninstall e cmd) (\<lambda>_ t. confined cmd t)"
  unfolding helm_handlers
  by (rule trace_consts | rule trace_rules | (simp add: confined_def write_allowed_def; fail))+

interpretation confined_drain: drain_monitor
  "\<lambda>_ t. c_Verb cmd = VerbDrainNode \<longrightarrow> confined cmd t" cfg node cmd UNIV tot
proof
  show "c_Verb cmd = VerbDrainNode \<longrightarrow> confined cmd (x # u)"
    if "loop_event p x" "c_Verb cmd = VerbDrainNode \<longrightarrow> confined cmd u" for p x and u :: "'c effect list"
    using that unfolding loop_event_def by (elim disjE exE) (simp_all add: confined_def write_allowed_def)
  show "c_Verb cmd = VerbDrainNode \<longrightarrow> confined cmd z" if "loop_end cmd pct z" for pct and z :: "'c effect list"
    using that unfolding loop_end_def by (elim disjE exE) (simp_all add: confined_def)
qed (simp_all add: confined_def)

lemma confined_nodes:
  "c_Verb cmd = VerbDrainNode \<Longrightarrow> emits (drainNode fuel e cmd) (\<lambda>_ t. confined cmd t)"
  "c_Verb cmd = VerbUncordonNode \<Longrightarrow> emits (uncordonNode e cmd) (\<lambda>_ t. confined cmd t)"
proof -
  assume v: "c_Verb cmd = VerbDrainNode"
  note pods = confined_drain.drain_all [OF refl subset_UNIV refl, THEN emits_conseq]
  show "emits (drainNode fuel e cmd) (\<lambda>_ t. confined cmd t)"
    unfolding node_handlers Let_def
    by (rule trace_consts | rule pods | rule trace_rules | (use v in \<open>simp add: confined_def write_allowed_def\<close>; fail))+
next
  assume v: "c_Verb cmd = VerbUncordonNode"
  show "emits (uncordonNode e cmd) (\<lambda>_ t. confined cmd t)"
    unfolding node_handlers
    by (rule trace_consts | rule trace_rules | (simp add: v confined_def write_allowed_def; fail))+
qed

section \<open>Drains\<close>

text \<open>
  What may happen during a drain of \<open>node\<close>: only its own cordon patch and evictions are written; an
  eviction comes after the cordon was accepted and concerns a listed pod that runs on the node, is
  no mirror or DaemonSet pod and lives in no protected namespace. \<open>cordoned\<close> and \<open>pods\<close> are what the
  trace has established so far.
\<close>

fun drain_safe :: "config \<Rightarrow> string \<Rightarrow> bool \<Rightarrow> pod list \<Rightarrow> 'c effect list \<Rightarrow> bool" where
  "drain_safe cfg node cordoned pods [] \<longleftrightarrow> True"
| "drain_safe cfg node cordoned pods (x # t) \<longleftrightarrow>
     (case x of
        EPods _ (Inr ps) \<Rightarrow> drain_safe cfg node cordoned ps t
      | ECall dry (NodePatch n b) r \<Rightarrow>
          \<not> dry \<and> n = node \<and> b = cordon_patch True \<and> drain_safe cfg node (r = None) pods t
      | ECall dry (Evict ns n) r \<Rightarrow>
          \<not> dry \<and> cordoned \<and>
          (\<exists>p \<in> set pods. p_Namespace p = ns \<and> p_Name p = n \<and> p_NodeName p = node \<and>
             \<not> isMirrorPod p \<and> \<not> isDaemonSetPod p \<and> \<not> ProtectedNamespace cfg ns) \<and>
          drain_safe cfg node cordoned pods t
      | ECall _ _ _ \<Rightarrow> False
      | _ \<Rightarrow> drain_safe cfg node cordoned pods t)"

interpretation safe_drain: drain_monitor
  "\<lambda>_ t. drain_safe cfg node True pods t" cfg node cmd "set pods" tot
proof
  show "drain_safe cfg node True pods (x # u)"
    if "p \<in> set pods" "evictable cfg node p" "loop_event p x" "drain_safe cfg node True pods u"
    for p x and u :: "'c effect list"
    using that unfolding loop_event_def by (elim disjE exE) (auto simp: evictable_def)
  show "drain_safe cfg node True pods z" if "loop_end cmd pct z" for pct and z :: "'c effect list"
    using that unfolding loop_end_def by (elim disjE exE) simp_all
qed simp_all

lemma drain_safe_drainNode:
  "emits (drainNode fuel e cmd) (\<lambda>_ t. drain_safe (ex_cfg e) (rr_Name (c_Target cmd)) False [] t)"
proof -
  note pods = safe_drain.drain_all [OF refl subset_refl refl, THEN emits_conseq]
  show ?thesis
    unfolding node_handlers Let_def
    by (rule trace_consts | rule pods | rule trace_rules | (simp; fail))+
qed

text \<open>
  The percentages of a drain of \<open>tot\<close> pods, \<open>n\<close> of which are evicted: each further eviction raises the
  gauge and the report to its share, and success is reported when all are evicted.
\<close>

fun percents :: "nat \<Rightarrow> nat \<Rightarrow> 'c effect list \<Rightarrow> bool" where
  "percents tot n [] \<longleftrightarrow> True"
| "percents tot n (x # t) \<longleftrightarrow>
     (case x of
        EDrain _ pct \<Rightarrow> n < tot \<and> pct = int (Suc n * 100 div tot) \<and> percents tot (Suc n) t
      | EReport st _ _ pct \<Rightarrow>
          (st = StatusProgress \<longrightarrow> pct = int (n * 100 div tot)) \<and> (st = StatusSucceeded \<longrightarrow> n = tot) \<and>
          percents tot n t
      | _ \<Rightarrow> percents tot n t)"

interpretation percents_drain: drain_monitor "percents tot" cfg node cmd UNIV tot
proof
  show "percents tot n (x # u)" if "loop_event p x" "percents tot n u" for p x n and u :: "'c effect list"
    using that unfolding loop_event_def by (elim disjE exE) simp_all
  show "percents tot n z" if "loop_end cmd (int (n * 100 div tot)) z" for n and z :: "'c effect list"
    using that unfolding loop_end_def by (elim disjE exE) simp_all
qed simp_all

text \<open>The number of pods a drain has to evict, read off its trace.\<close>

fun evictable_in :: "config \<Rightarrow> string \<Rightarrow> 'c effect list \<Rightarrow> nat" where
  "evictable_in cfg node [] = 0"
| "evictable_in cfg node (x # t) =
     (case x of EPods _ (Inr ps) \<Rightarrow> length (filter (evictable cfg node) ps) | _ \<Rightarrow> evictable_in cfg node t)"

lemma percents_drainNode:
  "emits (drainNode fuel e cmd)
     (\<lambda>_ t. percents (evictable_in (ex_cfg e) (rr_Name (c_Target cmd)) t) 0 t)"
proof -
  note pods = percents_drain.drain_all [OF refl subset_UNIV refl, THEN emits_conseq]
  show ?thesis
    unfolding node_handlers Let_def
    by (rule trace_consts | rule pods | rule trace_rules | (simp; fail))+
qed

section \<open>A concrete executor\<close>

text \<open>
  A cluster that holds one object and accepts every write, whose clock advances with every wait, and
  whose node runs a given list of pods.
\<close>

definition demo_exec :: "config \<Rightarrow> jobj option \<Rightarrow> pod list \<Rightarrow> (int, unit, int) executor" where
  "demo_exec cfg live pods =
     \<lparr> ex_cfg = cfg, ex_U = ref_unstr, ex_Q = plain_quantities,
       ex_yaml_read = (\<lambda>b. [Inr b]), ex_yaml_unmarshal = (\<lambda>_. Inr []),
       ex_gv_string = (\<lambda>g v. g @ ''/'' @ v), ex_mapper = False,
       ex_mapping = (\<lambda>_ _ _ w. (Inl NoMatch, w)),
       ex_get = (\<lambda>_ _ _ w. (case live of None \<Rightarrow> Inl \<lparr>ae_text = ''not found'', ae_notfound = True\<rparr> | Some l \<Rightarrow> Inr l, w)),
       ex_node = (\<lambda>_ w. (None, w)), ex_pods = (\<lambda>_ w. (Inr pods, w)),
       ex_write = (\<lambda>_ _ w. (None, w)), ex_now = (\<lambda>w. (w, w)), ex_wait = (\<lambda>w. (None, w + 2 * Second)),
       ex_helm_init = (\<lambda>_ w. (Inr True, w)), ex_registry = (\<lambda>w. (None, w)), ex_helm_values = (\<lambda>_. Inr []),
       ex_helm_status = (\<lambda>_ _ w. (None, w)), ex_stat = (\<lambda>_ w. (False, w)), ex_load = (\<lambda>_ w. (Inr (), w)),
       ex_locate = (\<lambda>_ r w. (Inr r, w)) \<rparr>"

lemma demo_exec_cfg [simp]: "ex_cfg (demo_exec cfg live pods) = cfg"
  by (simp add: demo_exec_def)

section \<open>Properties\<close>

lemmas dry_first_handlers = dry_first_objects dry_first_nodes dry_first_helm
lemmas confined_handlers = confined_objects confined_nodes confined_helm

lemma emits_confined:
  "emits (HandleCommand fuel e cmd)
     (\<lambda>_ t. \<exists>u. t = EReport StatusValidating '''' '''' 0 # u \<and> confined cmd u)"
  by (rule emits_HandleCommand) (rule confined_handlers | assumption | (simp add: confined_def; fail))+






text \<open>
  C14. Draining is safe: whatever the cluster answers, a drain writes nothing but the cordon patch of its
  own node and evictions; no eviction comes before the cordon was accepted; and every evicted pod was
  listed, runs on that node, is neither a mirror nor a DaemonSet pod and is in no protected namespace.
\<close>

theorem drainNode_safe:
  "drain_safe (ex_cfg e) (rr_Name (c_Target cmd)) False [] (run_trace (drainNode fuel e cmd) w)"
  by (rule emits_run_trace) (rule drain_safe_drainNode)


end
