(* ===== verification/Exec_Stall.thy ===== *)
theory Exec_Stall
  imports Exec_Policy
begin

text \<open>
  A drain ends. The retry loop of the source has no bound of its own; it ends because the clock
  advances by two seconds with every wait until the stall timeout is reached. Under that hypothesis
  on the environment, fuel for one attempt more than the timeout has two-second intervals is never
  used up, however often evictions fail and however many pods there are.
\<close>

text \<open>
  The clock, as a reading \<open>tm\<close> of the world: a clock reading lies between the times before and after
  it, a wait that is not cancelled takes two seconds, and no call turns the clock back.
\<close>

definition clock_advances :: "('w, 'c, 'q) executor \<Rightarrow> ('w \<Rightarrow> int) \<Rightarrow> bool" where
  "clock_advances e tm \<longleftrightarrow>
     (\<forall>w. tm w \<le> fst (ex_now e w) \<and> fst (ex_now e w) \<le> tm (snd (ex_now e w))) \<and>
     (\<forall>w. fst (ex_wait e w) = None \<longrightarrow> tm w + 2 * Second \<le> tm (snd (ex_wait e w))) \<and>
     (\<forall>dry c w. tm w \<le> tm (snd (ex_write e dry c w)))"

definition fuelled :: "('w, 'c) est \<Rightarrow> bool" where
  "fuelled s \<longleftrightarrow> EFuel \<notin> set (es_trace s)"

lemma fuelled_update [simp]:
  "fuelled (s\<lparr>es_w := w, es_trace := es_trace s @ t\<rparr>) \<longleftrightarrow> fuelled s \<and> EFuel \<notin> set t"
  "fuelled (s\<lparr>es_trace := es_trace s @ t\<rparr>) \<longleftrightarrow> fuelled s \<and> EFuel \<notin> set t"
  by (auto simp: fuelled_def)

section \<open>Runs of single actions\<close>

lemma run_ask_as:
  "run_state (ask_as ev f) s =
     (fst (f (es_w s)), s\<lparr>es_w := snd (f (es_w s)), es_trace := es_trace s @ [ev (fst (f (es_w s)))]\<rparr>)"
  by (simp add: ask_as_def ask_def emit_def split_def Let_def)

lemma run_emit: "run_state (emit x) s = ((), s\<lparr>es_trace := es_trace s @ [x]\<rparr>)"
  by (simp add: emit_def)

lemma run_fail:
  "run_state (fail cmd msg err) s =
     ((), s\<lparr>es_trace := es_trace s @ [EMetric (c_Verb cmd) resultFailed, EReport StatusFailed (msg @ '': '' @ err) '''' 0]\<rparr>)"
  by (simp add: fail_def report_of_def run_emit)

lemmas run_actions = api_write_def clock_def wait2_def report_progress_def run_ask_as run_emit run_fail

lemma clock_laws:
  assumes "clock_advances e tm"
  shows "tm w \<le> fst (ex_now e w)" "fst (ex_now e w) \<le> tm (snd (ex_now e w))"
    and "fst (ex_wait e w) = None \<Longrightarrow> tm w + 2 * Second \<le> tm (snd (ex_wait e w))"
    and "tm w \<le> tm (snd (ex_write e dry c w))"
  using assms unfolding clock_advances_def by blast+

section \<open>The loops\<close>

lemma evict_loop_fuelled:
  assumes "clock_advances e tm"
    and "fuelled s" "DrainStallTimeout (ex_cfg e) \<le> tm (es_w s) - lastSuccess + 2 * Second * int fuel"
  shows "fuelled (snd (run_state (evict_loop (Suc fuel) e cmd p lastSuccess evicted tot) s))"
  using assms(2,3)
proof (induction fuel arbitrary: s)
  case 0
  let ?w1 = "snd (ex_write e False (Evict (p_Namespace p) (p_Name p)) (es_w s))"
  have "tm (es_w s) \<le> fst (ex_now e ?w1)"
    using clock_laws [OF assms(1)] order_trans by blast
  with 0 show ?case
    by (simp add: run_actions fuelled_def split: option.split)
next
  case (Suc fuel)
  let ?w1 = "snd (ex_write e False (Evict (p_Namespace p) (p_Name p)) (es_w s))"
  let ?w2 = "snd (ex_now e ?w1)"
  let ?w3 = "snd (ex_wait e ?w2)"
  have "tm (es_w s) \<le> tm ?w2"
    using clock_laws [OF assms(1)] order_trans by meson
  then have w3: "tm (es_w s) + 2 * Second \<le> tm ?w3" if "fst (ex_wait e ?w2) = None"
    using clock_laws(3) [OF assms(1) that] by linarith
  have IH: "fuelled (snd (run_state (evict_loop (Suc fuel) e cmd p lastSuccess evicted tot) s'))"
    if "fuelled s'" "es_w s' = ?w3" "fst (ex_wait e ?w2) = None" for s'
    using Suc.IH [of s'] Suc.prems(2) w3 that by (simp add: algebra_simps del: evict_loop.simps)
  show ?case
    by (subst evict_loop.simps(2))
      (use Suc.prems(1) in \<open>auto simp: run_actions simp del: evict_loop.simps split: option.split intro!: IH\<close>)
qed

lemma drain_pods_fuelled:
  assumes "clock_advances e tm" "DrainStallTimeout (ex_cfg e) \<le> 2 * Second * int fuel"
    and "fuelled s" "lastSuccess \<le> tm (es_w s)"
  shows "fuelled (snd (run_state (drain_pods (Suc fuel) e cmd node tot ps lastSuccess evicted) s))"
  using assms(3,4)
proof (induction ps arbitrary: s lastSuccess evicted)
  case Nil
  then show ?case
    by (simp add: fuelled_def run_emit succeed_def report_of_def)
next
  case (Cons p ps)
  show ?case
  proof (cases "evictable (ex_cfg e) node p")
    case False
    with Cons show ?thesis by (simp del: evict_loop.simps)
  next
    case True
    let ?r = "run_state (evict_loop (Suc fuel) e cmd p lastSuccess evicted tot) s"
    have "fuelled (snd ?r)"
      by (rule evict_loop_fuelled [OF assms(1)]) (use Cons.prems assms(2) in simp_all)
    then have f: "fuelled (snd ?r\<lparr>es_w := w, es_trace := es_trace (snd ?r) @ [ENow now, EDrain node pct,
        EReport StatusProgress msg '''' pct]\<rparr>)" for w now pct msg
      by (simp add: fuelled_def)
    have now: "fst (ex_now e (es_w (snd ?r))) \<le> tm (snd (ex_now e (es_w (snd ?r))))"
      by (rule clock_laws [OF assms(1)])
    show ?thesis
      using True \<open>fuelled (snd ?r)\<close> Cons.IH [OF f] now
      by (simp add: run_actions split_def Let_def del: evict_loop.simps)
  qed
qed

lemma drainNode_fuelled:
  assumes "clock_advances e tm" "DrainStallTimeout (ex_cfg e) \<le> 2 * Second * int fuel" "fuelled s"
  shows "fuelled (snd (run_state (drainNode (Suc fuel) e cmd) s))"
  using assms(3)
  by (simp add: drainNode_def node_get_def pod_list_def run_actions succeed_def report_of_def Let_def
      drain_pods_fuelled [OF assms(1,2)] clock_laws(2) [OF assms(1)]
      del: evict_loop.simps drain_pods.simps split: option.split sum.split)

section \<open>Properties\<close>

text \<open>
  C23. A drain always ends: if the clock advances by at least two seconds with every wait, the retry loops
  of a drain end by themselves within the stall timeout, for every number of pods and every answer
  of the cluster. With fuel for one attempt more than the timeout has two-second intervals, the fuel
  is never used up, so that the run ends with a terminal report or with the report that the drain
  stalled.
\<close>

theorem drainNode_terminates:
  assumes "clock_advances e tm" "DrainStallTimeout (ex_cfg e) \<le> 2 * Second * int fuel"
    and "c_Verb cmd = VerbDrainNode"
  shows "lifecycle VerbDrainNode (run_trace (drainNode (Suc fuel) e cmd) w) \<and>
    EFuel \<notin> set (run_trace (drainNode (Suc fuel) e cmd) w)"
proof -
  have "fuelled (snd (run_state (drainNode (Suc fuel) e cmd) \<lparr>es_w = w, es_trace = []\<rparr>))"
    by (rule drainNode_fuelled [OF assms(1,2)]) (simp add: fuelled_def)
  moreover have "lifecycle VerbDrainNode (run_trace (drainNode (Suc fuel) e cmd) w)"
    by (rule emits_run_trace) (use lifecycle_nodes(1) [OF assms(3)] assms(3) in simp)
  ultimately show ?thesis
    by (simp add: fuelled_def run_trace_def)
qed

text \<open>A cluster whose disruption budget rejects every eviction.\<close>

definition stuck_exec :: "pod list \<Rightarrow> (int, unit, int) executor" where
  "stuck_exec pods = (demo_exec demo_config None pods)
     \<lparr>ex_write := (\<lambda>_ c w. (case c of Evict _ _ \<Rightarrow> Some \<lparr>ae_text = ''disruption budget'', ae_notfound = False\<rparr>
        | _ \<Rightarrow> None, w))\<rparr>"

definition demo_pod :: "string \<Rightarrow> string \<Rightarrow> pod" where
  "demo_pod ns n = \<lparr>p_Name = n, p_Namespace = ns, p_NodeName = ''node-1'', p_Annotations = [], p_Owners = []\<rparr>"

definition demo_drain :: command where
  "demo_drain = demo_command\<lparr>c_Verb := VerbDrainNode, c_Target := (c_Target demo_command)\<lparr>rr_Name := ''node-1''\<rparr>\<rparr>"

theorem drainNode_terminates_witness:
  "EFuel \<notin> set (run_trace (drainNode (Suc 450) (stuck_exec [demo_pod ''default'' ''web'']) demo_drain) 0)"
proof (rule drainNode_terminates [THEN conjunct2])
  show "clock_advances (stuck_exec [demo_pod ''default'' ''web'']) (\<lambda>w. w)"
    by (simp add: clock_advances_def stuck_exec_def demo_exec_def)
qed (simp_all add: stuck_exec_def demo_drain_def)

end
