(* ===== verification/Validator.thy ===== *)
theory Validator
  imports Protocol
begin

text \<open>
  The package \<^verbatim>\<open>internal/validator\<close>: the local policy a command has to satisfy. A refusal is its
  reason; \<open>None\<close> means the command may proceed. The policy is also stated declaratively, in terms
  of what a command asks for, and the code's sequence of checks is proved to decide it.
\<close>

section \<open>The checks\<close>

type_synonym refusal = string

definition refusal_Error :: "refusal \<Rightarrow> string" where
  "refusal_Error r = ''refused: '' @ r"

definition validateHelm :: "command \<Rightarrow> refusal option" where
  "validateHelm cmd =
     (let incomplete =
        ''helm command requires a complete helm spec (release name, namespace, chart ref)'' in
      case c_Helm cmd of
        None \<Rightarrow> Some incomplete
      | Some h \<Rightarrow>
          if h_ReleaseName h = '''' \<or> h_Namespace h = '''' \<or> h_ChartRef h = ''''
          then Some incomplete else None)"

definition targetNamespace :: "command \<Rightarrow> string" where
  "targetNamespace cmd =
     (if c_Verb cmd \<in> {VerbHelmInstall, VerbHelmUpgrade, VerbHelmUninstall} then
        (case c_Helm cmd of Some h \<Rightarrow> h_Namespace h | None \<Rightarrow> '''')
      else rr_Namespace (c_Target cmd))"

text \<open>The first switch of \<^verbatim>\<open>Validate\<close>, on the verb.\<close>

definition validate_verb :: "command \<Rightarrow> refusal option" where
  "validate_verb cmd =
     (let v = c_Verb cmd in
      if v \<in> {VerbApply, VerbPatch} then
        (if c_Payload cmd = [] then Some (v @ '' requires a non-empty payload'') else None)
      else if v = VerbClusterUpgrade then
        Some ''cluster-upgrade is not supported by this agent version''
      else if v \<in> {VerbDelete, VerbDrainNode, VerbUncordonNode, VerbCertRotate} then None
      else if v \<in> {VerbHelmInstall, VerbHelmUpgrade, VerbHelmUninstall} then validateHelm cmd
      else Some (''unknown verb '' @ Quote v))"

definition Validator_Validate :: "config \<Rightarrow> command option \<Rightarrow> refusal option" where
  "Validator_Validate cfg cmd_ptr =
     (case cmd_ptr of
        None \<Rightarrow> Some ''nil command''
      | Some cmd \<Rightarrow>
          (case validate_verb cmd of
             Some r \<Rightarrow> Some r
           | None \<Rightarrow>
               if c_Verb cmd = VerbPatch \<and> c_PatchType cmd \<notin> {PatchStrategic, PatchMerge, PatchJSON}
                 then Some (''unsupported patch type '' @ Quote (c_PatchType cmd))
               else if c_Verb cmd = VerbDelete \<and> \<not> AllowDelete cfg
                 then Some ''delete is disabled by policy (ALLOW_DELETE=false)''
               else
                 (let ns = targetNamespace cmd in
                  if ns \<noteq> '''' \<and> ProtectedNamespace cfg ns
                  then Some (''namespace '' @ Quote ns @ '' is protected'') else None)))"

section \<open>The policy\<close>

definition helm_verbs :: "string set" where
  "helm_verbs = {VerbHelmInstall, VerbHelmUpgrade, VerbHelmUninstall}"

definition known_verbs :: "string set" where
  "known_verbs =
     {VerbApply, VerbPatch, VerbDelete, VerbDrainNode, VerbUncordonNode, VerbCertRotate} \<union> helm_verbs"

text \<open>
  What the policy allows: a supported verb (never a cluster upgrade), a payload where one is
  needed, a supported patch type, a complete helm spec, deletion only when enabled, and no
  target namespace on the protected list.
\<close>

definition policy_allows :: "config \<Rightarrow> command \<Rightarrow> bool" where
  "policy_allows cfg cmd \<longleftrightarrow>
     c_Verb cmd \<in> known_verbs \<and>
     (c_Verb cmd \<in> {VerbApply, VerbPatch} \<longrightarrow> c_Payload cmd \<noteq> []) \<and>
     (c_Verb cmd = VerbPatch \<longrightarrow> c_PatchType cmd \<in> {PatchStrategic, PatchMerge, PatchJSON}) \<and>
     (c_Verb cmd \<in> helm_verbs \<longrightarrow>
        (\<exists>h. c_Helm cmd = Some h \<and> h_ReleaseName h \<noteq> '''' \<and> h_Namespace h \<noteq> '''' \<and>
          h_ChartRef h \<noteq> '''')) \<and>
     (c_Verb cmd = VerbDelete \<longrightarrow> AllowDelete cfg) \<and>
     targetNamespace cmd \<notin> set (ProtectedNamespaces cfg) - {''''}"

lemma validate_verb_None:
  "validate_verb cmd = None \<longleftrightarrow>
     c_Verb cmd \<in> known_verbs \<and>
     (c_Verb cmd \<in> {VerbApply, VerbPatch} \<longrightarrow> c_Payload cmd \<noteq> []) \<and>
     (c_Verb cmd \<in> helm_verbs \<longrightarrow> validateHelm cmd = None)"
  by (auto simp: validate_verb_def Let_def known_verbs_def helm_verbs_def)

lemma validateHelm_None:
  "validateHelm cmd = None \<longleftrightarrow>
     (\<exists>h. c_Helm cmd = Some h \<and> h_ReleaseName h \<noteq> '''' \<and> h_Namespace h \<noteq> '''' \<and> h_ChartRef h \<noteq> '''')"
  by (auto simp: validateHelm_def Let_def split: option.splits)

lemma Validate_None_iff:
  "Validator_Validate cfg (Some cmd) = None \<longleftrightarrow>
     validate_verb cmd = None \<and>
     \<not> (c_Verb cmd = VerbPatch \<and> c_PatchType cmd \<notin> {PatchStrategic, PatchMerge, PatchJSON}) \<and>
     \<not> (c_Verb cmd = VerbDelete \<and> \<not> AllowDelete cfg) \<and>
     targetNamespace cmd \<notin> set (ProtectedNamespaces cfg) - {''''}"
  by (simp add: Validator_Validate_def Let_def ProtectedNamespace_iff split: option.split)

section \<open>Properties\<close>

text \<open>
  C33. The sequence of checks in \<^verbatim>\<open>Validator.Validate\<close> decides the declared policy: a command is let
  through exactly when it is not nil and the policy allows it.
\<close>

theorem Validate_decides_policy:
  "Validator_Validate cfg p = None \<longleftrightarrow> (\<exists>cmd. p = Some cmd \<and> policy_allows cfg cmd)"
proof (cases p)
  case None
  then show ?thesis by (simp add: Validator_Validate_def)
next
  case (Some cmd)
  then show ?thesis
    unfolding Some Validate_None_iff validate_verb_None validateHelm_None policy_allows_def by blast
qed



end
