(* ===== verification/Operator.thy ===== *)
theory Operator
  imports Upload_Run Informers Wsclient Exec_Stall Validator
begin

text \<open>
  The command \<^verbatim>\<open>cmd/operator\<close>: how the process builds its clients and wires the components, the read-only mode, the
  readiness goroutine, the log level, and the life of the process. The Kubernetes client libraries are arguments that either succeed
  or give the text of an error.
\<close>

section \<open>Paths\<close>

text \<open>\<^verbatim>\<open>filepath.Clean\<close>, \<^verbatim>\<open>Dir\<close> and \<^verbatim>\<open>Join\<close> for slash-separated paths.\<close>

fun clean_parts :: "bool \<Rightarrow> string list \<Rightarrow> string list \<Rightarrow> string list" where
  "clean_parts rooted acc [] = acc"
| "clean_parts rooted acc (p # ps) =
     (if p = '''' \<or> p = ''.'' then clean_parts rooted acc ps
      else if p = ''..'' then
        (if acc \<noteq> [] \<and> last acc \<noteq> ''..'' then clean_parts rooted (butlast acc) ps
         else if rooted then clean_parts rooted acc ps
         else clean_parts rooted (acc @ [p]) ps)
      else clean_parts rooted (acc @ [p]) ps)"

definition path_Clean :: "string \<Rightarrow> string" where
  "path_Clean p =
     (let rooted = HasPrefix p ''/''; body = join_with CHR ''/'' (clean_parts rooted [] (Split p CHR ''/''))
      in if rooted then CHR ''/'' # body else if body = '''' then ''.'' else body)"

definition path_Dir :: "string \<Rightarrow> string" where
  "path_Dir p = path_Clean (rev (dropWhile (\<lambda>c. c \<noteq> CHR ''/'') (rev p)))"

definition path_Join :: "string \<Rightarrow> string \<Rightarrow> string" where
  "path_Join a b =
     (if a = '''' \<and> b = '''' then '''' else if a = '''' then path_Clean b else if b = '''' then path_Clean a
      else path_Clean (a @ ''/'' @ b))"

definition JoinHostPort :: "string \<Rightarrow> string \<Rightarrow> string" where
  "JoinHostPort host port =
     (if CHR '':'' \<in> set host then ''['' @ host @ '']:'' @ port else host @ '':'' @ port)"

section \<open>Building the clients\<close>

text \<open>Where a client's configuration comes from.\<close>

datatype kube_config =
    FromKubeconfig string
  | InClusterConfig
  | Assembled string string string \<comment> \<open>host, token file, CA file\<close>

text \<open>
  The surroundings of the process: its environment, the files that exist, and the libraries'
  answers: loading a kubeconfig, the classic in-cluster configuration, and building a client of a kind from a
  configuration (\<open>None\<close> is success).
\<close>

record op_env =
  oe_getenv :: "string \<Rightarrow> string"
  oe_exists :: "string \<Rightarrow> bool"
  oe_load :: "string \<Rightarrow> string option"
  oe_incluster :: "string option"
  oe_client :: "string \<Rightarrow> kube_config \<Rightarrow> string option"

definition kubeConfigFor :: "op_env \<Rightarrow> string \<Rightarrow> string + kube_config" where
  "kubeConfigFor env tokenPath =
     (let kubeconfig = oe_getenv env ''KUBECONFIG'' in
      if kubeconfig \<noteq> '''' then
        (case oe_load env kubeconfig of Some e \<Rightarrow> Inl e | None \<Rightarrow> Inr (FromKubeconfig kubeconfig))
      else
        (let host = oe_getenv env ''KUBERNETES_SERVICE_HOST''; port = oe_getenv env ''KUBERNETES_SERVICE_PORT'' in
         if host = '''' \<or> port = '''' then
           Inl ''not in a cluster (KUBERNETES_SERVICE_HOST/PORT unset) and KUBECONFIG is not set''
         else
           (let caFile = path_Join (path_Dir tokenPath) ''ca.crt'' in
            if \<not> oe_exists env caFile then
              (case oe_incluster env of Some e \<Rightarrow> Inl e | None \<Rightarrow> Inr InClusterConfig)
            else Inr (Assembled (''https://'' @ JoinHostPort host port) tokenPath caFile))))"

definition writerAvailable :: "op_env \<Rightarrow> config \<Rightarrow> bool" where
  "writerAvailable env cfg \<longleftrightarrow>
     WriterEnabled cfg \<and> (oe_exists env (WriterTokenPath cfg) \<or> oe_getenv env ''KUBECONFIG'' \<noteq> '''')"

definition with_client :: "op_env \<Rightarrow> string \<Rightarrow> kube_config \<Rightarrow> (string + 'a) \<Rightarrow> string + 'a" where
  "with_client env kind k next =
     (case oe_client env kind k of Some e \<Rightarrow> Inl (kind @ '': '' @ e) | None \<Rightarrow> next)"

section \<open>Wiring\<close>

text \<open>
  The running operator: its configuration (with the read-only mode applied), the configuration of the executor's
  clients if there is an executor, the watched resources, and whether the push channel is on. The other
  components start in the states their constructors give.
\<close>

record operator =
  op_cfg :: config
  op_reader :: kube_config
  op_executor :: "kube_config option"
  op_resources :: "watched_resource list"
  op_push :: bool

datatype load_error = LoadFailed config_error | SetupFailed string

definition build_writer :: "op_env \<Rightarrow> config \<Rightarrow> string + kube_config option" where
  "build_writer env cfg =
     (if \<not> writerAvailable env cfg then Inr None
      else case kubeConfigFor env (WriterTokenPath cfg) of
        Inl e \<Rightarrow> Inl (''writer kube config: '' @ e)
      | Inr k \<Rightarrow> with_client env ''writer dynamic client'' k (with_client env ''writer clientset'' k (Inr (Some k))))"

definition build_operator :: "op_env \<Rightarrow> config \<Rightarrow> string + operator" where
  "build_operator env cfg =
     (case kubeConfigFor env (ReaderTokenPath cfg) of
        Inl e \<Rightarrow> Inl (''reader kube config: '' @ e)
      | Inr reader \<Rightarrow>
          with_client env ''reader dynamic client'' reader (with_client env ''discovery client'' reader
            (case build_writer env cfg of
               Inl e \<Rightarrow> Inl e
             | Inr writer \<Rightarrow>
                 (case Resolve (InformersEnabled cfg) of
                    Inl e \<Rightarrow> Inl (''resolve informers: '' @ e)
                  | Inr ws \<Rightarrow>
                      Inr \<lparr>op_cfg = cfg\<lparr>WriterEnabled := writerAvailable env cfg\<rparr>, op_reader = reader,
                        op_executor = writer, op_resources = ws, op_push = WSEnabled cfg\<rparr>))))"

definition operator_run :: "op_env \<Rightarrow> load_error + operator" where
  "operator_run env =
     (case Load (oe_getenv env) of
        Inl e \<Rightarrow> Inl (LoadFailed e)
      | Inr cfg \<Rightarrow> (case build_operator env cfg of Inl e \<Rightarrow> Inl (SetupFailed e) | Inr op \<Rightarrow> Inr op))"

text \<open>The uploader's snapshot source, filled in once the manager exists.\<close>

definition lazy_Snapshot ::
  "unstr \<Rightarrow> int \<Rightarrow> (gvr \<Rightarrow> informer_obj list) \<Rightarrow> manager option \<Rightarrow> inventory_event list" where
  "lazy_Snapshot U now store m = (case m of None \<Rightarrow> [] | Some mg \<Rightarrow> Snapshot U now store mg)"

text \<open>The readiness goroutine: the state of the caches at each tick of its timer, until they have synced.\<close>

fun readiness :: "(gvr \<Rightarrow> bool) list \<Rightarrow> manager \<Rightarrow> server_state \<Rightarrow> server_state" where
  "readiness [] m h = h"
| "readiness (synced # ticks) m h = (if HasSynced synced m then SetReady True h else readiness ticks m h)"

text \<open>A subsystem that returns an error stops the process unless the context has ended already.\<close>

definition subsystem_stops :: "string option \<Rightarrow> bool \<Rightarrow> bool" where
  "subsystem_stops err ctx_done \<longleftrightarrow> err \<noteq> None \<and> \<not> ctx_done"

text \<open>
  The process: one goroutine per subsystem and the readiness goroutine, a context that ends with a signal or a failed
  subsystem, and the main goroutine, which waits for the context and then for all of them. The loops of the push channel,
  the informers, the uploader and the receiver return (without an error) only once the context has ended; the HTTP listener
  returns as \<open>server_Run\<close> does. A failed setup ends the process with status 1.
\<close>

record op_process =
  oq_done :: bool
  oq_running :: "string list"
  oq_failed :: bool
  oq_exit :: "int option"

definition loop_subsystems :: "operator \<Rightarrow> string list" where
  "loop_subsystems op = (if op_push op then [''wsclient''] else []) @ [''informers'', ''uploader'', ''receiver'']"

definition operator_main :: "op_env \<Rightarrow> op_process" where
  "operator_main env =
     (case operator_run env of
        Inl e \<Rightarrow> \<lparr>oq_done = False, oq_running = [], oq_failed = False, oq_exit = Some 1\<rparr>
      | Inr op \<Rightarrow>
          \<lparr>oq_done = False, oq_running = loop_subsystems op @ [''http'', ''readiness''], oq_failed = False, oq_exit = None\<rparr>)"

inductive op_step :: "op_process \<Rightarrow> op_process \<Rightarrow> bool" where
  signal: "oq_exit p = None \<Longrightarrow> op_step p (p\<lparr>oq_done := True\<rparr>)"
| loop_returns: "name \<in> set (oq_running p) \<Longrightarrow> name \<notin> {''http'', ''readiness''} \<Longrightarrow> oq_done p \<Longrightarrow>
    op_step p (p\<lparr>oq_running := remove1 name (oq_running p)\<rparr>)"
| http_returns: "''http'' \<in> set (oq_running p) \<Longrightarrow> server_Run ev = None \<longrightarrow> oq_done p \<Longrightarrow>
    op_step p (p\<lparr>oq_running := remove1 ''http'' (oq_running p),
      oq_done := (oq_done p \<or> subsystem_stops (server_Run ev) (oq_done p)),
      oq_failed := (oq_failed p \<or> subsystem_stops (server_Run ev) (oq_done p))\<rparr>)"
| ready_returns: "''readiness'' \<in> set (oq_running p) \<Longrightarrow> op_step p (p\<lparr>oq_running := remove1 ''readiness'' (oq_running p)\<rparr>)"
| main_returns: "oq_exit p = None \<Longrightarrow> oq_done p \<Longrightarrow> oq_running p = [] \<Longrightarrow> op_step p (p\<lparr>oq_exit := Some 0\<rparr>)"

datatype log_level = LevelDebug | LevelInfo | LevelWarn | LevelError

definition newLogger :: "string \<Rightarrow> log_level" where
  "newLogger level =
     (if level = ''debug'' then LevelDebug else if level = ''warn'' then LevelWarn
      else if level = ''error'' then LevelError else LevelInfo)"

section \<open>Facts\<close>

lemma with_client_Inr: "with_client env kind k next = Inr x \<longleftrightarrow> oe_client env kind k = None \<and> next = Inr x"
  by (auto simp: with_client_def split: option.splits)

lemma build_writer_Inr: "build_writer env cfg = Inr w \<Longrightarrow> w \<noteq> None \<longleftrightarrow> writerAvailable env cfg"
  by (auto simp: build_writer_def with_client_Inr split: if_splits sum.splits)

lemma build_Inr:
  assumes "build_operator env cfg = Inr op"
  shows "op_cfg op = cfg\<lparr>WriterEnabled := writerAvailable env cfg\<rparr> \<and> (op_executor op \<noteq> None \<longleftrightarrow> writerAvailable env cfg)"
  using assms build_writer_Inr by (fastforce simp: build_operator_def with_client_Inr split: sum.splits)

lemma admitted_writer: "recv_reachable verify cfg push s \<Longrightarrow> (t, c) \<in> set (rc_dispatched (ps_r s)) \<Longrightarrow> WriterEnabled cfg"
  using reachable_sys_inv by (fastforce simp: sys_inv_def core_inv_def admitted_def)

lemma readiness_ready:
  "ss_ready (readiness ticks m h) \<longleftrightarrow> ss_ready h \<or> (\<exists>synced \<in> set ticks. HasSynced synced m)"
  by (induction ticks) (auto simp: SetReady_def)

text \<open>
  While the context is live, every subsystem runs. The process ends only after all of them have, and always with
  status 0, even if it was the listener's error that ended the context.
\<close>

definition process_ok :: "operator \<Rightarrow> op_process \<Rightarrow> bool" where
  "process_ok op p \<longleftrightarrow>
     (oq_done p \<or> set (loop_subsystems op @ [''http'']) \<subseteq> set (oq_running p) \<and> \<not> oq_failed p \<and> oq_exit p = None) \<and>
     (oq_exit p = None \<or> oq_exit p = Some 0 \<and> oq_running p = [])"

lemma process_ok_step: "op_step p q \<Longrightarrow> process_ok op p \<Longrightarrow> process_ok op q"
  by (induction rule: op_step.induct)
    (auto simp: process_ok_def loop_subsystems_def subsystem_stops_def split: if_splits)

lemma operator_process_ok:
  assumes "operator_run env = Inr op" "op_step\<^sup>*\<^sup>* (operator_main env) p"
  shows "process_ok op p"
  using assms(2)
proof (induction rule: rtranclp_induct)
  case base
  show ?case using assms(1) by (auto simp: operator_main_def process_ok_def)
qed (rule process_ok_step)

lemma listener_failure_status_0:
  assumes "operator_run env = Inr op"
  shows "\<exists>p. op_step\<^sup>*\<^sup>* (operator_main env) p \<and> oq_failed p \<and> oq_exit p = Some 0"
proof -
  define gone where "gone = (\<lambda>xs e. \<lparr>oq_done = True, oq_running = xs, oq_failed = True, oq_exit = e\<rparr>)"
  have "op_step (operator_main env) (gone (loop_subsystems op @ [''readiness'']) None)"
    using op_step.http_returns [of "operator_main env" "ListenFailed e"] assms
    by (simp add: operator_main_def gone_def server_Run_def subsystem_stops_def loop_subsystems_def remove1_append)
  moreover have "op_step (gone (loop_subsystems op @ [''readiness'']) None) (gone (loop_subsystems op) None)"
    using op_step.ready_returns [of "gone (loop_subsystems op @ [''readiness'']) None"]
    by (simp add: gone_def remove1_append loop_subsystems_def split: if_splits)
  moreover have "op_step\<^sup>*\<^sup>* (gone xs None) (gone [] None)" if "set xs \<subseteq> set (loop_subsystems op)" for xs
    using that
  proof (induction xs)
    case (Cons x xs)
    then have "op_step (gone (x # xs) None) (gone xs None)"
      using op_step.loop_returns [of x "gone (x # xs) None"] by (auto simp: gone_def loop_subsystems_def split: if_splits)
    then show ?case using Cons by (auto intro: converse_rtranclp_into_rtranclp)
  qed simp
  moreover have "op_step (gone [] None) (gone [] (Some 0))"
    using op_step.main_returns [of "gone [] None"] by (simp add: gone_def)
  ultimately have "op_step\<^sup>*\<^sup>* (operator_main env) (gone [] (Some 0))"
    by (meson order_refl converse_rtranclp_into_rtranclp rtranclp.rtrancl_into_rtrancl)
  then show ?thesis by (intro exI [of _ "gone [] (Some 0)"]) (simp add: gone_def)
qed

section \<open>Properties\<close>


text \<open>A pod without token files, outside of any kubeconfig.\<close>

definition bare_env :: op_env where
  "bare_env =
     \<lparr>oe_getenv = demo_env(''KUBERNETES_SERVICE_HOST'' := ''10.0.0.1'', ''KUBERNETES_SERVICE_PORT'' := ''443''),
      oe_exists = (\<lambda>_. False), oe_load = (\<lambda>_. None), oe_incluster = None, oe_client = (\<lambda>_ _. None)\<rparr>"

lemma Resolve_default: "\<exists>ws. Resolve DefaultInformers = Inr ws"
proof -
  have "list_all (list_all lower_letter) DefaultInformers"
    by (simp add: DefaultInformers_def lower_letter_def)
  then have "ToLower (TrimSpace n) = n" if "n \<in> set DefaultInformers" for n
    using that by (simp add: list_all_iff [of "list_all lower_letter"] ToLower_TrimSpace)
  moreover have "\<forall>n \<in> set DefaultInformers. map_of known n \<noteq> None"
    by (simp add: DefaultInformers_def known_def namespaced_def cluster_scoped_def)
  moreover have "\<exists>ws. Resolve ns = Inr ws" if "\<forall>n \<in> set ns. map_of known (ToLower (TrimSpace n)) \<noteq> None" for ns
    using that by (induction ns) auto
  ultimately show ?thesis by simp
qed

lemma bare_env_loads: "Load (oe_getenv bare_env) = Inr demo_config" "InformersEnabled demo_config = DefaultInformers"
proof -
  have "load_env (oe_getenv bare_env) = demo_config"
    by (simp add: demo_config_def bare_env_def load_env_def demo_env_def envOr_def envBool_def envList_def envDuration_def)
  moreover have "Validate demo_config = None"
    by (simp add: Validate_def) (simp add: demo_config_def demo_env_def load_env_def envOr_def)
  ultimately show "Load (oe_getenv bare_env) = Inr demo_config" by (simp add: Load_def)
  show "InformersEnabled demo_config = DefaultInformers"
    by (simp add: demo_config_def demo_env_def load_env_def envList_def)
qed

lemma bare_env_vars:
  "oe_getenv bare_env ''KUBECONFIG'' = ''''" "oe_getenv bare_env ''KUBERNETES_SERVICE_HOST'' = ''10.0.0.1''"
  "oe_getenv bare_env ''KUBERNETES_SERVICE_PORT'' = ''443''" "oe_client bare_env kind k = None"
  "\<not> oe_exists bare_env path" "oe_incluster bare_env = None"
  by (simp_all add: bare_env_def demo_env_def)

lemma bare_env_runs: "\<exists>op. operator_run bare_env = Inr op \<and> op_executor op = None"
  using Resolve_default bare_env_loads bare_env_vars
  by (auto simp: operator_run_def build_operator_def kubeConfigFor_def build_writer_def writerAvailable_def with_client_def)


lemma delete_carried_out:
  assumes "c_Verb cmd = VerbDelete" "c_ExpectedHash cmd = ''''"
    and "\<And>w. fst (ex_get x (gvrOf (c_Target cmd)) (Some (rr_Namespace (c_Target cmd))) (rr_Name (c_Target cmd)) w) = Inr live"
    and "\<And>dry call w. fst (ex_write x dry call w) = None"
  shows "ECall False (Delete (gvrOf (c_Target cmd)) (Some (rr_Namespace (c_Target cmd))) (rr_Name (c_Target cmd))) None
    \<in> set (run_trace (HandleCommand fuel x cmd) w)"
  using assms
  by (simp add: run_trace_def HandleCommand_def delete_cmd_def liveObject_def liveGet_def checkDrift_def action_defs
      ask_as_def ask_def emit_def delete_error_def succeed_def Let_def split_def)

text \<open>
  C34. The local policy is not enforced on the way from the server to the cluster: a delete command that the
  validator refuses, because deletion is disabled in the configuration, is accepted by the receiver and
  carried out by the executor, which calls nothing of \<^verbatim>\<open>internal/validator\<close>. (The command is authentic, fresh and
  new, carries no expected hash, names an object that exists, and the API server accepts the calls.)
\<close>

theorem delete_policy_bypassed:
  assumes "\<not> AllowDelete cfg" "c_Verb cmd = VerbDelete" "c_ExpectedHash cmd = ''''" "rc_cfg r = cfg"
    and "\<not> fst (nonce_seen (c_ID cmd) (rc_ids r))"
    and "fst (receiver_validate verify (pe_now env) cmd (after_id_check cmd r)) = None"
    and "\<And>w. fst (ex_get x (gvrOf (c_Target cmd)) (Some (rr_Namespace (c_Target cmd))) (rr_Name (c_Target cmd)) w) = Inr live"
    and "\<And>dry call w. fst (ex_write x dry call w) = None"
  shows "Validator_Validate cfg (Some cmd) = Some ''delete is disabled by policy (ALLOW_DELETE=false)'' \<and>
    (pe_now env, cmd) \<in> set (rc_dispatched (process_cmd verify env cmd r)) \<and>
    ECall False (Delete (gvrOf (c_Target cmd)) (Some (rr_Namespace (c_Target cmd))) (rr_Name (c_Target cmd))) None
      \<in> set (run_trace (HandleCommand fuel x cmd) w)"
proof (intro conjI)
  show "Validator_Validate cfg (Some cmd) = Some ''delete is disabled by policy (ALLOW_DELETE=false)''"
    using assms(1,2) by (simp add: Validator_Validate_def validate_verb_def)
  show "(pe_now env, cmd) \<in> set (rc_dispatched (process_cmd verify env cmd r))"
    using assms(5,6) by (cases rule: process_cmd_cases [of cmd r verify env]) (auto simp: Let_def)
qed (rule delete_carried_out [OF assms(2,3,7,8)])

definition frozen_config :: config where
  "frozen_config = demo_config\<lparr>AllowDelete := False\<rparr>"

definition delete_signed :: command where
  "delete_signed = demo_signed\<lparr>c_Verb := VerbDelete\<rparr>"

lemma delete_signature: "VerifySignature accept_all pub delete_signed = None"
proof -
  have "base64_EncodeToString ''sig'' \<noteq> ''''"
    by code_simp
  then show ?thesis
    by (simp add: VerifySignature_None delete_signed_def demo_signed_def b64.decode_encode)
qed

lemma delete_time: "time_Since (pe_now demo_penv) (time_Unix (c_Timestamp delete_signed)) = Second"
  by (simp add: delete_signed_def demo_signed_def demo_command_def demo_penv_def) code_simp

lemma frozen_key: "PublicKey frozen_config = PublicKey demo_config"
  unfolding PublicKey_def by (simp add: frozen_config_def split: option.splits)

lemma delete_accepted:
  "fst (receiver_validate accept_all (pe_now demo_penv) delete_signed
     (after_id_check delete_signed (receiver_New frozen_config True))) = None"
proof -
  have "WriterEnabled frozen_config = WriterEnabled demo_config"
    by (simp add: frozen_config_def)
  then show ?thesis
    using frozen_key delete_signature delete_time
    by (simp add: receiver_validate_def after_id_check_def receiver_New_def nonce_seen_def
        newNonceCache_def Let_def)
qed

theorem delete_policy_bypassed_witness:
  "Validator_Validate frozen_config (Some delete_signed) = Some ''delete is disabled by policy (ALLOW_DELETE=false)'' \<and>
   (pe_now demo_penv, delete_signed)
     \<in> set (rc_dispatched (process_cmd accept_all demo_penv delete_signed (receiver_New frozen_config True))) \<and>
   ECall False (Delete (gvrOf (c_Target delete_signed)) (Some (rr_Namespace (c_Target delete_signed)))
       (rr_Name (c_Target delete_signed))) None
     \<in> set (run_trace (HandleCommand 0 (demo_exec frozen_config (Some []) []) delete_signed) 0)"
proof (rule delete_policy_bypassed)
  show "\<not> AllowDelete frozen_config" by (simp add: frozen_config_def)
  show "c_Verb delete_signed = VerbDelete" by (simp add: delete_signed_def)
  show "c_ExpectedHash delete_signed = ''''" by (simp add: delete_signed_def demo_signed_def demo_command_def)
  show "rc_cfg (receiver_New frozen_config True) = frozen_config" by (simp add: receiver_New_def)
  show "\<not> fst (nonce_seen (c_ID delete_signed) (rc_ids (receiver_New frozen_config True)))"
    by (simp add: receiver_New_def nonce_seen_def newNonceCache_def Let_def)
qed (simp_all add: delete_accepted demo_exec_def)

end
