(* ===== verification/Agent.thy ===== *)
theory Agent
  imports Operator
begin

text \<open>
  The command path of the running agent: the receiver, one goroutine per dispatched command that runs the
  executor's handler, and restarts of the process. A handler's run is the trace of interactions the executor
  produces; its steps interleave with those of other handlers, of the poll loop and of the socket, and each of its
  reports goes through the receiver's callback. Whatever the other parties do to the cluster meanwhile is covered
  by ranging over all executors of a set \<open>E\<close>, whose answers are arbitrary.
\<close>

section \<open>The composed system\<close>

record 'c handler_run =
  gr_cmd :: command
  gr_done :: "'c effect list"
  gr_todo :: "'c effect list"

record 'c agent =
  ag_poll :: poll_system
  ag_runs :: "'c handler_run list"
  ag_log :: "(command \<times> 'c effect) list"

definition agent_init :: "config \<Rightarrow> bool \<Rightarrow> (command \<times> 'c effect) list \<Rightarrow> 'c agent" where
  "agent_init cfg push lg = \<lparr>ag_poll = poll_init cfg push, ag_runs = [], ag_log = lg\<rparr>"

definition handler_trace :: "('w, 'c, 'q) executor set \<Rightarrow> command \<Rightarrow> 'c effect list \<Rightarrow> bool" where
  "handler_trace E cmd tr \<longleftrightarrow> (\<exists>e \<in> E. \<exists>fuel w. tr = run_trace (HandleCommand fuel e cmd) w)"

text \<open>The goroutine that \<^verbatim>\<open>process\<close> starts for a dispatched command.\<close>

definition started :: "('w, 'c, 'q) executor set \<Rightarrow> 'c handler_run \<Rightarrow> int \<times> command \<Rightarrow> bool" where
  "started E run d \<longleftrightarrow> gr_cmd run = snd d \<and> gr_done run = [] \<and> handler_trace E (snd d) (gr_todo run)"

abbreviation new_dispatches :: "poll_system \<Rightarrow> poll_system \<Rightarrow> (int \<times> command) list" where
  "new_dispatches s s' \<equiv> drop (length (rc_dispatched (ps_r s))) (rc_dispatched (ps_r s'))"

fun perform :: "int \<Rightarrow> push_state \<Rightarrow> command \<Rightarrow> 'c effect \<Rightarrow> 'c agent \<Rightarrow> 'c agent" where
  "perform now push cmd (EReport st msg diff pct) a =
     a\<lparr>ag_poll := (ag_poll a)\<lparr>ps_r := handler_report cmd now push
         \<lparr>r_ClusterID = '''', r_CommandID = '''', r_Status = st, r_Message = msg, r_Diff = diff, r_Progress = pct,
          r_Timestamp = 0\<rparr> (ps_r (ag_poll a))\<rparr>\<rparr>"
| "perform now push cmd x a = a\<lparr>ag_log := ag_log a @ [(cmd, x)]\<rparr>"

text \<open>
  A panic in a handler ends the process, so it is not performed but followed by a restart, which may happen at any
  time. The caches, the queued reports and the running handlers are in memory only.
\<close>

inductive agent_step ::
  "(bytes \<Rightarrow> bytes \<Rightarrow> bytes \<Rightarrow> bool) \<Rightarrow> config \<Rightarrow> bool \<Rightarrow> ('w, 'c, 'q) executor set \<Rightarrow> 'c agent \<Rightarrow> 'c agent \<Rightarrow> bool"
  for verify cfg pushOn and E :: "('w, 'c, 'q) executor set" where
  receive: "recv_io verify (ag_poll a) s' \<Longrightarrow> list_all2 (started E) runs (new_dispatches (ag_poll a) s') \<Longrightarrow>
     agent_step verify cfg pushOn E a (a\<lparr>ag_poll := s', ag_runs := ag_runs a @ runs\<rparr>)"
| act: "i < length (ag_runs a) \<Longrightarrow> ag_runs a ! i = run \<Longrightarrow> gr_todo run = x # rest \<Longrightarrow> x \<noteq> EPanic \<Longrightarrow>
     agent_step verify cfg pushOn E a
       (perform now push (gr_cmd run) x
         (a\<lparr>ag_runs := (ag_runs a)[i := run\<lparr>gr_done := gr_done run @ [x], gr_todo := rest\<rparr>]\<rparr>))"
| restart: "agent_step verify cfg pushOn E a (agent_init cfg pushOn (ag_log a))"

inductive agent_reachable ::
  "(bytes \<Rightarrow> bytes \<Rightarrow> bytes \<Rightarrow> bool) \<Rightarrow> config \<Rightarrow> bool \<Rightarrow> ('w, 'c, 'q) executor set \<Rightarrow> 'c agent \<Rightarrow> bool"
  for verify cfg pushOn and E :: "('w, 'c, 'q) executor set" where
  init: "agent_reachable verify cfg pushOn E (agent_init cfg pushOn [])"
| step: "agent_reachable verify cfg pushOn E a \<Longrightarrow> agent_step verify cfg pushOn E a a' \<Longrightarrow>
     agent_reachable verify cfg pushOn E a'"

section \<open>Authority\<close>

text \<open>Every running handler belongs to an admitted command, and so does everything that was ever done.\<close>

definition authority ::
  "(bytes \<Rightarrow> bytes \<Rightarrow> bytes \<Rightarrow> bool) \<Rightarrow> config \<Rightarrow> ('w, 'c, 'q) executor set \<Rightarrow> 'c agent \<Rightarrow> bool" where
  "authority verify cfg E a \<longleftrightarrow>
     sys_inv verify cfg (ag_poll a) \<and>
     map gr_cmd (ag_runs a) = map snd (rc_dispatched (ps_r (ag_poll a))) \<and>
     (\<forall>run \<in> set (ag_runs a). handler_trace E (gr_cmd run) (gr_done run @ gr_todo run) \<and> EPanic \<notin> set (gr_done run)) \<and>
     (\<forall>(cmd, x) \<in> set (ag_log a). (\<exists>t. admitted verify cfg t cmd) \<and> (\<exists>tr. handler_trace E cmd tr \<and> x \<in> set tr))"

lemma process_dispatches:
  "\<exists>ds. rc_dispatched (process_cmd verify env cmd r) = rc_dispatched r @ ds"
  by (cases rule: process_cmd_cases [of cmd r verify env]) (auto simp: Let_def after_id_check_def)

lemma process_all_dispatches:
  "process_all verify cs r = Some r' \<Longrightarrow> \<exists>ds. rc_dispatched r' = rc_dispatched r @ ds"
proof (induction verify cs r rule: process_all.induct)
  case (2 verify env ptr cs r)
  then obtain cmd where "process verify env ptr r = Some (process_cmd verify env cmd r)"
      "process_all verify cs (process_cmd verify env cmd r) = Some r'"
    by (auto simp: process_def split: option.splits)
  with "2.IH" process_dispatches [of verify env cmd r] show ?case by fastforce
qed simp

lemma recv_io_dispatches:
  "recv_io verify s s' \<Longrightarrow> \<exists>ds. rc_dispatched (ps_r s') = rc_dispatched (ps_r s) @ ds"
proof (induction rule: recv_io.induct)
  case (poll_ok s sent ok cmds s')
  then show ?case
    using process_all_dispatches [of verify cmds] by (fastforce simp: poll_success_def Let_def split: option.splits if_splits)
next
  case (ws_command env ptr s r')
  then show ?case
    using process_dispatches by (auto simp: process_def split: option.splits)
qed (auto simp: poll_error_def Let_def split: prod.splits)

lemma authority_init: "authority verify cfg E (agent_init cfg pushOn [])"
  using sys_inv_init [of verify cfg pushOn]
  by (simp add: authority_def agent_init_def poll_init_def receiver_New_def)

lemma perform_frame [simp]:
  "ag_runs (perform now push cmd x a) = ag_runs a"
  "rc_dispatched (ps_r (ag_poll (perform now push cmd x a))) = rc_dispatched (ps_r (ag_poll a))"
  "rc_id_history (ps_r (ag_poll (perform now push cmd x a))) = rc_id_history (ps_r (ag_poll a))"
  "set (ag_log (perform now push cmd x a)) \<subseteq> insert (cmd, x) (set (ag_log a))"
  by (cases x; auto simp: handler_report_def)+

lemma perform_sys_inv: "sys_inv verify cfg (ag_poll a) \<Longrightarrow> sys_inv verify cfg (ag_poll (perform now push cmd x a))"
  by (cases x) (auto simp: sys_inv_def handler_report_def ptr_inv_deliver split: option.splits)

lemma started_map: "list_all2 (started E) runs ds \<Longrightarrow> map gr_cmd runs = map snd ds"
  by (induction rule: list_all2_induct) (simp_all add: started_def)

lemma started_trace:
  "list_all2 (started E) runs ds \<Longrightarrow> run \<in> set runs \<Longrightarrow>
   handler_trace E (gr_cmd run) (gr_done run @ gr_todo run) \<and> EPanic \<notin> set (gr_done run)"
  by (induction rule: list_all2_induct) (auto simp: started_def)

lemma authority_admitted:
  assumes "authority verify cfg E a" "run \<in> set (ag_runs a)"
  shows "\<exists>t. admitted verify cfg t (gr_cmd run)"
proof -
  have "gr_cmd run \<in> set (map gr_cmd (ag_runs a))" using assms(2) by simp
  moreover have "map gr_cmd (ag_runs a) = map snd (rc_dispatched (ps_r (ag_poll a)))"
    using assms(1) by (simp add: authority_def)
  ultimately obtain t where "(t, gr_cmd run) \<in> set (rc_dispatched (ps_r (ag_poll a)))" by auto
  moreover have "\<forall>(t, c) \<in> set (rc_dispatched (ps_r (ag_poll a))). admitted verify cfg t c"
    using assms(1) by (simp add: authority_def sys_inv_def core_inv_def)
  ultimately show ?thesis by blast
qed

lemma authority_step:
  assumes "agent_step verify cfg pushOn E a a'" "authority verify cfg E a"
  shows "authority verify cfg E a'"
  using assms
proof (cases rule: agent_step.cases)
  case (receive s' runs)
  obtain ds where ds: "rc_dispatched (ps_r s') = rc_dispatched (ps_r (ag_poll a)) @ ds"
    using recv_io_dispatches [OF receive(2)] by blast
  have "sys_inv verify cfg s'"
    using sys_inv_io [OF receive(2)] assms(2) by (simp add: authority_def)
  then show ?thesis
    using receive(1,3) assms(2) ds started_map [OF receive(3)] started_trace [OF receive(3)]
    by (auto simp: authority_def)
next
  case (act i run x rest now push)
  let ?run = "run\<lparr>gr_done := gr_done run @ [x], gr_todo := rest\<rparr>"
  have run: "run \<in> set (ag_runs a)" using act by auto
  have tr: "handler_trace E (gr_cmd run) (gr_done run @ x # rest)"
    using assms(2) run act(4) by (force simp: authority_def)
  have "map gr_cmd ((ag_runs a)[i := ?run]) = map gr_cmd (ag_runs a)"
    using act(2,3) by (simp add: map_update list_update_same_conv)
  moreover have "EPanic \<notin> set (gr_done ?run)"
    using assms(2) run act(5) by (auto simp: authority_def)
  then have "handler_trace E (gr_cmd r) (gr_done r @ gr_todo r) \<and> EPanic \<notin> set (gr_done r)" if "r \<in> set ((ag_runs a)[i := ?run])" for r
    using that tr assms(2) set_update_subset_insert [of "ag_runs a" i ?run] by (auto simp: authority_def)
  moreover have "(\<exists>t. admitted verify cfg t c) \<and> (\<exists>tr. handler_trace E c tr \<and> y \<in> set tr)"
    if "(c, y) \<in> set (ag_log a')" for c y
  proof (cases "(c, y) = (gr_cmd run, x)")
    case True
    then show ?thesis using authority_admitted [OF assms(2) run] tr by auto
  next
    case False
    then have "(c, y) \<in> set (ag_log a)"
      using that perform_frame(4) [of now push "gr_cmd run" x "a\<lparr>ag_runs := (ag_runs a)[i := ?run]\<rparr>"] act(1) by auto
    then show ?thesis using assms(2) by (auto simp: authority_def)
  qed
  moreover have "sys_inv verify cfg (ag_poll a')"
    using assms(2) act(1) perform_sys_inv [of verify cfg "a\<lparr>ag_runs := (ag_runs a)[i := ?run]\<rparr>"] by (simp add: authority_def)
  ultimately show ?thesis
    using assms(2) act(1) by (auto simp: authority_def)
next
  case restart
  then show ?thesis
    using assms(2) sys_inv_init [of verify cfg pushOn]
    by (auto simp: authority_def agent_init_def poll_init_def receiver_New_def)
qed

lemma reachable_authority: "agent_reachable verify cfg pushOn E a \<Longrightarrow> authority verify cfg E a"
  by (induction rule: agent_reachable.induct) (auto intro: authority_init authority_step)

lemma trace_confined:
  assumes "handler_trace E cmd tr" "ECall dry call res \<in> set tr"
  shows "write_allowed cmd call"
proof -
  obtain e fuel w where "e \<in> E" "tr = run_trace (HandleCommand fuel e cmd) w"
    using assms(1) by (auto simp: handler_trace_def)
  with emits_run_trace [OF emits_confined, of fuel e cmd w] assms(2) show ?thesis
    by (force simp: confined_def)
qed

section \<open>Reports\<close>

text \<open>The statuses delivered for a command id, and those a handler has reported so far.\<close>

definition statuses :: "string \<Rightarrow> receiver \<Rightarrow> string list" where
  "statuses i r = map (r_Status \<circ> snd) (filter (\<lambda>p. r_CommandID (snd p) = i) (rc_delivered r))"

fun reported :: "'c effect list \<Rightarrow> string list" where
  "reported [] = []"
| "reported (EReport st msg diff pct # t) = st # reported t"
| "reported (_ # t) = reported t"

lemma reported_append [simp]: "reported (t @ u) = reported t @ reported u"
  by (induction t rule: reported.induct) simp_all

text \<open>
  The ledger of dispatched commands: their ids are distinct, ids that were never seen have no report, and the statuses
  delivered for a dispatched command are \<^verbatim>\<open>received\<close> and what its handler reported.
\<close>

definition ledger :: "receiver \<Rightarrow> (string \<times> string list) list \<Rightarrow> bool" where
  "ledger r L \<longleftrightarrow>
     distinct (map fst L) \<and> fst ` set L \<subseteq> set (rc_id_history r) \<and>
     (\<forall>(i, sts) \<in> set L. statuses i r = StatusReceived # sts) \<and>
     (\<forall>i. i \<notin> set (rc_id_history r) \<longrightarrow> statuses i r = [])"

abbreviation fresh_entries :: "(int \<times> command) list \<Rightarrow> (string \<times> string list) list" where
  "fresh_entries \<equiv> map (\<lambda>(t, c). (c_ID c, []))"

lemma statuses_frame [simp]:
  "statuses i (r\<lparr>rc_dispatched := ds\<rparr>) = statuses i r"
  "statuses i (r\<lparr>rc_queue := q\<rparr>) = statuses i r"
  "statuses i (r\<lparr>rc_metrics := m\<rparr>) = statuses i r"
  "statuses i (snd (receiver_validate verify now cmd r)) = statuses i r"
  "statuses i (after_id_check cmd r) = statuses i r"
  by (simp_all add: statuses_def after_id_check_def)

lemma statuses_deliver [simp]:
  "statuses i (deliverReport push rep r) = statuses i r @ (if r_CommandID rep = i then [r_Status rep] else [])"
  by (simp add: statuses_def)

lemma newReport_fields [simp]:
  "r_CommandID (newReport r cmd st msg now) = c_ID cmd" "r_Status (newReport r cmd st msg now) = st"
  by (simp_all add: newReport_def)

text \<open>Processing a command with a new id adds one report for it.\<close>

lemma ledger_new_id:
  assumes "ledger r L" "distinct (rc_id_history r')" "rc_id_history r' = rc_id_history r @ [i]"
    and st: "\<And>j. statuses j r' = statuses j r @ (if i = j then [st] else [])"
  shows "ledger r' L \<and> (st = StatusReceived \<longrightarrow> ledger r' (L @ [(i, [])]))"
proof -
  have i: "i \<notin> set (rc_id_history r)" using assms(2,3) by simp
  then have out: "i \<notin> fst ` set L" using assms(1) by (auto simp: ledger_def)
  then have "statuses j r' = StatusReceived # sts" if "(j, sts) \<in> set L" for j sts
  proof -
    have "i \<noteq> j" using that out by force
    then show ?thesis using that assms(1) st [of j] by (auto simp: ledger_def)
  qed
  then have L: "\<forall>(j, sts) \<in> set L. statuses j r' = StatusReceived # sts" by blast
  moreover have "statuses i r' = [st]" using st [of i] assms(1) i by (simp add: ledger_def)
  ultimately show ?thesis
    using assms(1,3) st out by (auto simp: ledger_def)
qed

lemma ledger_process:
  assumes "ledger r L" "distinct (rc_id_history (process_cmd verify env cmd r))"
    and "rc_dispatched (process_cmd verify env cmd r) = rc_dispatched r @ ds"
  shows "ledger (process_cmd verify env cmd r) (L @ fresh_entries ds)"
proof (cases rule: process_cmd_cases [of cmd r verify env])
  case duplicate
  then show ?thesis
    using assms by (simp add: ledger_def) (simp add: after_id_check_def)
next
  case (refused msg)
  have h: "rc_id_history (process_cmd verify env cmd r) = rc_id_history r @ [c_ID cmd]" "ds = []"
    using refused assms(3) by (simp_all add: Let_def) (simp_all add: after_id_check_def)
  have "statuses j (process_cmd verify env cmd r) = statuses j r @ (if c_ID cmd = j then [StatusRefused] else [])" for j
    using refused(3) by (simp add: Let_def)
  from ledger_new_id [OF assms(1,2) h(1) this] h(2) show ?thesis by simp
next
  case accepted
  have h: "rc_id_history (process_cmd verify env cmd r) = rc_id_history r @ [c_ID cmd]" "ds = [(pe_now env, cmd)]"
    using accepted assms(3) by (simp_all add: Let_def) (simp_all add: after_id_check_def)
  have "statuses j (process_cmd verify env cmd r) = statuses j r @ (if c_ID cmd = j then [StatusReceived] else [])" for j
    using accepted(3) by (simp add: Let_def)
  from ledger_new_id [OF assms(1,2) h(1) this] h(2) show ?thesis by simp
qed

lemma process_history: "\<exists>h. rc_id_history (process_cmd verify env cmd r) = rc_id_history r @ h"
  by (cases rule: process_cmd_cases [of cmd r verify env]) (auto simp: Let_def after_id_check_def)

lemma process_all_history: "process_all verify cs r = Some r' \<Longrightarrow> \<exists>h. rc_id_history r' = rc_id_history r @ h"
proof (induction verify cs r rule: process_all.induct)
  case (2 verify env ptr cs r)
  then obtain cmd where "process verify env ptr r = Some (process_cmd verify env cmd r)"
      "process_all verify cs (process_cmd verify env cmd r) = Some r'"
    by (auto simp: process_def split: option.splits)
  with "2.IH" process_history [of verify env cmd r] show ?case by fastforce
qed simp

lemma ledger_process_all:
  assumes "process_all verify cs r = Some r'" "ledger r L" "distinct (rc_id_history r')"
    and "rc_dispatched r' = rc_dispatched r @ ds"
  shows "ledger r' (L @ fresh_entries ds)"
  using assms
proof (induction verify cs r arbitrary: L ds rule: process_all.induct)
  case (2 verify env ptr cs r)
  then obtain cmd where p: "process verify env ptr r = Some (process_cmd verify env cmd r)"
      "process_all verify cs (process_cmd verify env cmd r) = Some r'"
    by (auto simp: process_def split: option.splits)
  obtain d1 where d1: "rc_dispatched (process_cmd verify env cmd r) = rc_dispatched r @ d1"
    using process_dispatches by blast
  obtain d2 where d2: "rc_dispatched r' = rc_dispatched (process_cmd verify env cmd r) @ d2"
    using process_all_dispatches [OF p(2)] by blast
  have "distinct (rc_id_history (process_cmd verify env cmd r))"
    using process_all_history [OF p(2)] "2.prems"(3) by auto
  then have "ledger r' ((L @ fresh_entries d1) @ fresh_entries d2)"
    using "2.IH" [OF p(1) p(2) ledger_process [OF "2.prems"(2) _ d1] "2.prems"(3) d2] by blast
  moreover have "ds = d1 @ d2" using "2.prems"(4) d1 d2 by simp
  ultimately show ?case by simp
qed simp

lemma ledger_queue [simp]: "ledger (r\<lparr>rc_queue := q\<rparr>) L \<longleftrightarrow> ledger r L"
  by (simp add: ledger_def)

lemma ledger_io:
  assumes "recv_io verify s s'" "ledger (ps_r s) L" "distinct (rc_id_history (ps_r s'))"
    and "rc_dispatched (ps_r s') = rc_dispatched (ps_r s) @ ds"
  shows "ledger (ps_r s') (L @ fresh_entries ds)"
  using assms
proof (cases rule: recv_io.cases)
  case (poll_ok sent ok cmds)
  let ?r1 = "if ok then (ps_r s)\<lparr>rc_queue := rq_clearSent sent (rc_queue (ps_r s))\<rparr> else ps_r s"
  have "process_all verify cmds ?r1 = Some (ps_r s')"
    using poll_ok(2) by (auto simp: poll_success_def Let_def split: option.splits)
  then show ?thesis
    by (rule ledger_process_all) (use assms in simp_all)
next
  case (ws_command env ptr r')
  then obtain cmd where "r' = process_cmd verify env cmd (ps_r s)"
    by (auto simp: process_def split: option.splits)
  with ws_command(1) assms show ?thesis by (simp add: ledger_process)
qed (auto simp: poll_error_def Let_def split: prod.splits)

lemma recv_io_history:
  "recv_io verify s s' \<Longrightarrow> \<exists>h. rc_id_history (ps_r s') = rc_id_history (ps_r s) @ h"
proof (induction rule: recv_io.induct)
  case (poll_ok s sent ok cmds s')
  then show ?case
    using process_all_history [of verify cmds] by (fastforce simp: poll_success_def Let_def split: option.splits if_splits)
next
  case (ws_command env ptr s r')
  then show ?case
    using process_history by (auto simp: process_def split: option.splits)
qed (auto simp: poll_error_def Let_def split: prod.splits)

definition entry :: "'c handler_run \<Rightarrow> string \<times> string list" where
  "entry run = (c_ID (gr_cmd run), reported (gr_done run))"

definition books :: "'c agent \<Rightarrow> bool" where
  "books a \<longleftrightarrow>
     (distinct (rc_id_history (ps_r (ag_poll a))) \<longrightarrow> ledger (ps_r (ag_poll a)) (map entry (ag_runs a)))"

lemma started_entries: "list_all2 (started E) runs ds \<Longrightarrow> map entry runs = fresh_entries ds"
  by (induction rule: list_all2_induct) (auto simp: started_def entry_def)

lemma ledger_cong:
  "rc_id_history r' = rc_id_history r \<Longrightarrow> (\<And>j. statuses j r' = statuses j r) \<Longrightarrow> ledger r' L = ledger r L"
  by (simp add: ledger_def)

lemma ledger_update:
  assumes "ledger r L" "k < length L" "L ! k = (i, sts)" "rc_id_history r' = rc_id_history r"
    and st: "\<And>j. statuses j r' = statuses j r @ (if i = j then [st] else [])"
  shows "ledger r' (L[k := (i, sts @ [st])])"
proof -
  let ?L = "L[k := (i, sts @ [st])]"
  have k: "(i, sts) \<in> set L" using assms(2,3) by (metis nth_mem)
  have fsts: "map fst ?L = map fst L"
    using assms(2,3) by (simp add: map_update list_update_same_conv)
  have "statuses j r' = StatusReceived # ts" if j: "(j, ts) \<in> set ?L" for j ts
  proof (cases "i = j")
    case True
    obtain m where m: "m < length L" "?L ! m = (j, ts)"
      using j by (metis in_set_conv_nth length_list_update)
    have "fst (L ! m) = j" using m fsts by (metis fst_conv length_list_update nth_map)
    then have "m = k"
      using True assms(1,2,3) m(1) by (metis fst_conv length_map ledger_def nth_eq_iff_index_eq nth_map)
    then have "ts = sts @ [st]" using m assms(2) by simp
    then show ?thesis using True k assms(1) st [of j] by (auto simp: ledger_def)
  next
    case False
    then have "(j, ts) \<in> set L" using j set_update_subset_insert [of L k "(i, sts @ [st])"] by auto
    then show ?thesis using False assms(1) st [of j] by (auto simp: ledger_def)
  qed
  moreover have "fst ` set ?L = fst ` set L" using fsts by (metis image_set)
  moreover have "i \<in> set (rc_id_history r)" using k assms(1) by (force simp: ledger_def)
  ultimately show ?thesis
    using assms(1,4) fsts st by (auto simp: ledger_def)
qed

lemma perform_statuses:
  "statuses j (ps_r (ag_poll (perform now push cmd x a))) =
     statuses j (ps_r (ag_poll a)) @ (if c_ID cmd = j then reported [x] else [])"
  by (cases x) (simp_all add: handler_report_def)

lemma reported_one: "reported [x] = [] \<or> (\<exists>st. reported [x] = [st])"
  by (cases x) simp_all

lemma books_step:
  assumes "agent_step verify cfg pushOn E a a'" "books a"
  shows "books a'"
  using assms
proof (cases rule: agent_step.cases)
  case (receive s' runs)
  obtain ds where ds: "rc_dispatched (ps_r s') = rc_dispatched (ps_r (ag_poll a)) @ ds"
    using recv_io_dispatches [OF receive(2)] by blast
  have "map entry runs = fresh_entries ds"
    using started_entries [OF receive(3)] ds by simp
  moreover have "distinct (rc_id_history (ps_r (ag_poll a)))" if "distinct (rc_id_history (ps_r s'))"
    using recv_io_history [OF receive(2)] that by auto
  ultimately show ?thesis
    using receive(1) assms(2) ledger_io [OF receive(2) _ _ ds] by (simp add: books_def)
next
  case (act i run x rest now push)
  let ?run = "run\<lparr>gr_done := gr_done run @ [x], gr_todo := rest\<rparr>"
  let ?a = "a\<lparr>ag_runs := (ag_runs a)[i := ?run]\<rparr>"
  have entry: "entry ?run = (c_ID (gr_cmd run), reported (gr_done run) @ reported [x])"
    by (simp add: entry_def)
  have e: "i < length (map entry (ag_runs a))" "map entry (ag_runs a) ! i = (c_ID (gr_cmd run), reported (gr_done run))"
    using act(2,3) by (simp_all add: entry_def)
  have st: "statuses j (ps_r (ag_poll a')) = statuses j (ps_r (ag_poll a)) @ (if c_ID (gr_cmd run) = j then reported [x] else [])" for j
    using act(1) perform_statuses [of j now push "gr_cmd run" x ?a] by simp
  have h: "rc_id_history (ps_r (ag_poll a')) = rc_id_history (ps_r (ag_poll a))" "ag_runs a' = (ag_runs a)[i := ?run]"
    using act(1) by simp_all
  have "ledger (ps_r (ag_poll a')) (map entry (ag_runs a'))" if L: "ledger (ps_r (ag_poll a)) (map entry (ag_runs a))"
  proof (cases "reported [x] = []")
    case True
    then have "map entry (ag_runs a') = map entry (ag_runs a)"
      using h(2) entry e by (simp add: map_update list_update_same_conv)
    moreover have "statuses j (ps_r (ag_poll a')) = statuses j (ps_r (ag_poll a))" for j
      using st [of j] True by simp
    ultimately show ?thesis using L ledger_cong [OF h(1)] by simp
  next
    case False
    then obtain s where "reported [x] = [s]" using reported_one by blast
    then show ?thesis
      using ledger_update [OF L e h(1), of s] st h(2) entry by (simp add: map_update)
  qed
  then show ?thesis using assms(2) h(1) by (simp add: books_def)
next
  case restart
  then show ?thesis
    by (simp add: books_def ledger_def statuses_def agent_init_def poll_init_def receiver_New_def)
qed

lemma reachable_books: "agent_reachable verify cfg pushOn E a \<Longrightarrow> books a"
proof (induction rule: agent_reachable.induct)
  case init
  then show ?case
    by (simp add: books_def ledger_def statuses_def agent_init_def poll_init_def receiver_New_def)
qed (rule books_step)

lemma lifecycle_unfold:
  assumes "lifecycle v (x # u)" "x \<noteq> EPanic"
  shows "(\<exists>res \<in> terminal_statuses. reported (x # u) = [res]) \<or>
    u = [] \<and> v = VerbDrainNode \<and> set (reported [x]) \<inter> terminal_statuses = {} \<or>
    lifecycle v u \<and> set (reported [x]) \<inter> terminal_statuses = {}"
proof (cases x)
  case (EReport st msg diff pct)
  have "st \<notin> terminal_statuses \<and> (u = [] \<and> v = VerbDrainNode \<or> lifecycle v u)"
    using assms(1) unfolding EReport lifecycle.simps effect.case by blast
  then show ?thesis unfolding EReport by simp
next
  case (EMetric v' res)
  obtain msg diff where "res \<in> terminal_statuses" "u = [EReport res msg diff 0]"
    using assms(1) unfolding EMetric lifecycle.simps effect.case by blast
  then show ?thesis unfolding EMetric by simp
qed (use assms in simp_all)

lemma lifecycle_reports:
  "lifecycle v u \<Longrightarrow> EPanic \<notin> set u \<Longrightarrow>
   \<exists>mid fin. reported u = mid @ fin \<and> set mid \<inter> terminal_statuses = {} \<and>
     (fin = [] \<and> v = VerbDrainNode \<or> (\<exists>st \<in> terminal_statuses. fin = [st]))"
proof (induction u)
  case (Cons x u)
  have x: "x \<noteq> EPanic" using Cons.prems(2) by auto
  have split: "reported (x # u) = reported [x] @ reported u"
    using reported_append [of "[x]" u] by simp
  from lifecycle_unfold [OF Cons.prems(1) x] consider
      (ends) res where "res \<in> terminal_statuses" "reported (x # u) = [res]"
    | (stall) "u = []" "v = VerbDrainNode" "set (reported [x]) \<inter> terminal_statuses = {}"
    | (more) "lifecycle v u" "set (reported [x]) \<inter> terminal_statuses = {}"
    by blast
  then show ?case
  proof cases
    case ends
    then have "reported (x # u) = [] @ [res]" "set [] \<inter> terminal_statuses = {}" by simp_all
    with ends(1) show ?thesis by blast
  next
    case stall
    then have "reported (x # u) = reported [x] @ []" by simp
    with stall show ?thesis by blast
  next
    case more
    obtain mid fin where m: "reported u = mid @ fin" "set mid \<inter> terminal_statuses = {}"
        "fin = [] \<and> v = VerbDrainNode \<or> (\<exists>st \<in> terminal_statuses. fin = [st])"
      using Cons.IH [OF more(1)] Cons.prems(2) by auto
    have "reported (x # u) = (reported [x] @ mid) @ fin" using split m(1) by simp
    moreover have "set (reported [x] @ mid) \<inter> terminal_statuses = {}" using more(2) m(2) by auto
    ultimately show ?thesis using m(3) by blast
  qed
qed simp

section \<open>Runs of a handler\<close>

lemma lifecycle_no_panic:
  "lifecycle v u \<Longrightarrow> v \<notin> {VerbHelmInstall, VerbHelmUpgrade, VerbHelmUninstall} \<Longrightarrow> EPanic \<notin> set u"
proof (induction u)
  case (Cons x u)
  have "x \<noteq> EPanic" using Cons.prems by auto
  moreover have "u = [] \<or> lifecycle v u \<or> (\<exists>st msg diff. u = [EReport st msg diff 0])"
    using Cons.prems(1) by (cases x) auto
  ultimately show ?case using Cons by auto
qed simp

lemma trace_lifecycle:
  assumes "handler_trace E cmd tr"
  shows "\<exists>u. tr = EReport StatusValidating '''' '''' 0 # u \<and> lifecycle (c_Verb cmd) u"
proof -
  obtain e fuel w where "e \<in> E" "tr = run_trace (HandleCommand fuel e cmd) w"
    using assms by (auto simp: handler_trace_def)
  with emits_run_trace [OF emits_lifecycle, of fuel e cmd w] show ?thesis by simp
qed

text \<open>A handler can perform any part of its run that does not panic.\<close>

lemma handler_proceeds:
  assumes "agent_reachable verify cfg pushOn E a" "i < length (ag_runs a)" "ag_runs a ! i = run"
    and "gr_todo run = u @ v" "EPanic \<notin> set u"
  shows "\<exists>a'. agent_reachable verify cfg pushOn E a' \<and>
    ag_runs a' = (ag_runs a)[i := run\<lparr>gr_done := gr_done run @ u, gr_todo := v\<rparr>] \<and>
    rc_dispatched (ps_r (ag_poll a')) = rc_dispatched (ps_r (ag_poll a)) \<and>
    rc_id_history (ps_r (ag_poll a')) = rc_id_history (ps_r (ag_poll a)) \<and>
    ag_log a' = ag_log a @ map (Pair (gr_cmd run)) (filter (\<lambda>x. reported [x] = []) u)"
  using assms
proof (induction u arbitrary: a run)
  case Nil
  then have "run\<lparr>gr_todo := v\<rparr> = ag_runs a ! i" by (cases run) simp
  then have "(ag_runs a)[i := run\<lparr>gr_todo := v\<rparr>] = ag_runs a" by (metis list_update_id)
  with Nil show ?case by (intro exI [of _ a]) simp
next
  case (Cons x u)
  let ?run = "run\<lparr>gr_done := gr_done run @ [x], gr_todo := u @ v\<rparr>"
  let ?a = "perform 0 None (gr_cmd run) x (a\<lparr>ag_runs := (ag_runs a)[i := ?run]\<rparr>)"
  have "agent_step verify cfg pushOn E a ?a"
    using Cons.prems by (intro agent_step.act) auto
  then have "agent_reachable verify cfg pushOn E ?a"
    using Cons.prems(1) agent_reachable.step by blast
  moreover have "i < length (ag_runs ?a)" "ag_runs ?a ! i = ?run" "gr_todo ?run = u @ v" "EPanic \<notin> set u"
    using Cons.prems by simp_all
  moreover have "ag_log ?a = ag_log a @ map (Pair (gr_cmd run)) (filter (\<lambda>y. reported [y] = []) [x])"
    by (cases x) simp_all
  ultimately show ?case
    using Cons.IH [of ?a ?run] by (auto simp del: perform.simps)
qed

text \<open>A fresh receiver accepts every authentic command within the clock skew.\<close>

lemma fresh_receiver_accepts:
  fixes env :: penv
  assumes "admitted verify cfg (pe_now env) cmd"
  shows "rc_dispatched (process_cmd verify env cmd (receiver_New cfg push)) = [(pe_now env, cmd)]"
    and "rc_id_history (process_cmd verify env cmd (receiver_New cfg push)) = [c_ID cmd]"
proof -
  have "fst (receiver_validate verify (pe_now env) cmd (after_id_check cmd (receiver_New cfg push))) = None"
    using assms
    by (auto simp: receiver_validate_def admitted_def after_id_check_def receiver_New_def nonce_seen_def
        newNonceCache_def Let_def)
  moreover have "\<not> fst (nonce_seen (c_ID cmd) (rc_ids (receiver_New cfg push)))"
    by (simp add: receiver_New_def nonce_seen_def newNonceCache_def Let_def)
  ultimately show "rc_dispatched (process_cmd verify env cmd (receiver_New cfg push)) = [(pe_now env, cmd)]"
      "rc_id_history (process_cmd verify env cmd (receiver_New cfg push)) = [c_ID cmd]"
    by (cases rule: process_cmd_cases [of cmd "receiver_New cfg push" verify env];
        simp add: Let_def after_id_check_def receiver_New_def)+
qed

lemma fresh_agent_starts:
  fixes env :: penv
  assumes "admitted verify cfg (pe_now env) cmd" "handler_trace E cmd tr"
  shows "\<exists>a'. agent_step verify cfg pushOn E (agent_init cfg pushOn lg) a' \<and>
    rc_dispatched (ps_r (ag_poll a')) = [(pe_now env, cmd)] \<and>
    ag_runs a' = [\<lparr>gr_cmd = cmd, gr_done = [], gr_todo = tr\<rparr>] \<and>
    rc_id_history (ps_r (ag_poll a')) = [c_ID cmd] \<and> ag_log a' = lg"
proof -
  let ?s = "poll_init cfg pushOn"
  let ?s' = "?s\<lparr>ps_r := process_cmd verify env cmd (receiver_New cfg pushOn)\<rparr>"
  let ?run = "\<lparr>gr_cmd = cmd, gr_done = [], gr_todo = tr\<rparr>"
  have d: "rc_dispatched (ps_r ?s') = [(pe_now env, cmd)]" "rc_dispatched (ps_r ?s) = []"
    using fresh_receiver_accepts(1) [OF assms(1)] by (simp_all add: poll_init_def receiver_New_def)
  have "process verify env (Some cmd) (ps_r ?s) = Some (process_cmd verify env cmd (receiver_New cfg pushOn))"
    by (simp add: process_def poll_init_def)
  then have "recv_io verify (ag_poll (agent_init cfg pushOn lg)) ?s'"
    by (simp add: agent_init_def recv_io.ws_command)
  moreover have "list_all2 (started E) [?run] (new_dispatches (ag_poll (agent_init cfg pushOn lg)) ?s')"
    using d assms(2) by (simp add: agent_init_def started_def)
  ultimately have "agent_step verify cfg pushOn E (agent_init cfg pushOn lg)
      ((agent_init cfg pushOn lg)\<lparr>ag_poll := ?s', ag_runs := ag_runs (agent_init cfg pushOn lg) @ [?run]\<rparr>)"
    by (rule agent_step.receive)
  then show ?thesis using d fresh_receiver_accepts(2) [OF assms(1)] by (auto simp: agent_init_def)
qed

lemma drain_safe_evict:
  "drain_safe cfg node cordoned pods t \<Longrightarrow> ECall dry (Evict ns n) res \<in> set t \<Longrightarrow> \<not> ProtectedNamespace cfg ns"
proof (induction t arbitrary: cordoned pods)
  case (Cons x t)
  show ?case
  proof (cases "x = ECall dry (Evict ns n) res")
    case True
    then show ?thesis using Cons.prems(1) by auto
  next
    case False
    then have "ECall dry (Evict ns n) res \<in> set t" using Cons.prems(2) by auto
    moreover have "\<exists>c ps. drain_safe cfg node c ps t"
      using Cons.prems(1) by (auto split: effect.splits write_call.splits sum.splits)
    ultimately show ?thesis using Cons.IH by blast
  qed
qed simp

lemma trace_evicts:
  assumes "handler_trace E cmd tr" "ECall dry (Evict ns n) res \<in> set tr" "\<forall>e \<in> E. ex_cfg e = cfg"
  shows "\<not> ProtectedNamespace cfg ns"
proof -
  obtain e fuel w where tr: "e \<in> E" "tr = run_trace (HandleCommand fuel e cmd) w"
    using assms(1) by (auto simp: handler_trace_def)
  have "c_Verb cmd = VerbDrainNode"
    using trace_confined [OF assms(1,2)] by (simp add: write_allowed_def)
  then have "HandleCommand fuel e cmd = State_Monad.bind (report_of StatusValidating '''') (\<lambda>_. drainNode fuel e cmd)"
    by (simp add: HandleCommand_def)
  moreover have "emits (State_Monad.bind (report_of StatusValidating '''') (\<lambda>_. drainNode fuel e cmd))
      (\<lambda>_ t. drain_safe (ex_cfg e) (rr_Name (c_Target cmd)) False [] t)"
    by (rule emits_bind, rule emits_report_of, rule emits_conseq [OF drain_safe_drainNode]) simp
  ultimately have "drain_safe (ex_cfg e) (rr_Name (c_Target cmd)) False [] tr"
    using emits_run_trace tr(2) by metis
  from drain_safe_evict [OF this assms(2)] assms(3) tr(1) show ?thesis by simp
qed

end
