(* ===== verification/Mockserver.thy ===== *)
theory Mockserver
  imports Wsclient Uploader
begin

text \<open>
  The mock control plane (\<^verbatim>\<open>cmd/mockserver\<close>): how it fills and signs the commands of its file, its three endpoints, its command line,
  and the composition with the agent's HTTP client and WebSocket client through the JSON on the wire.
  Key generation, random bytes, the clock and the file are arguments. A handler that dereferences a nil
  pointer panics; net/http then aborts that request, which is \<open>None\<close> here.
\<close>

section \<open>The server\<close>

record mock_server =
  ms_token :: string
  ms_priv :: bytes
  ms_pub :: bytes
  ms_commands :: "command list"
  ms_delivered :: bool
  ms_wsDelivered :: bool

datatype mock_error = KeyFailed | CommandFileUnreadable | CommandFileInvalid | CommandFileNull

definition randomID :: "(nat \<Rightarrow> bytes) \<Rightarrow> nat \<Rightarrow> string" where
  "randomID rnd i = hex_EncodeToString (take 8 (rnd i))"

definition fill_command ::
  "(bytes \<Rightarrow> bytes \<Rightarrow> bytes) \<Rightarrow> bytes \<Rightarrow> (nat \<Rightarrow> bytes) \<Rightarrow> int \<Rightarrow> nat \<Rightarrow> command \<Rightarrow> command" where
  "fill_command sign priv rnd now i c =
     (let c1 = (if c_ID c = '''' then c\<lparr>c_ID := randomID rnd (2 * i)\<rparr> else c);
          c2 = (if c_Nonce c1 = '''' then c1\<lparr>c_Nonce := randomID rnd (2 * i + 1)\<rparr> else c1);
          c3 = (if c_Timestamp c2 = 0 then c2\<lparr>c_Timestamp := now_Unix now\<rparr> else c2)
      in Sign sign priv c3)"

fun fill_commands ::
  "(bytes \<Rightarrow> bytes \<Rightarrow> bytes) \<Rightarrow> bytes \<Rightarrow> (nat \<Rightarrow> bytes) \<Rightarrow> (nat \<Rightarrow> int) \<Rightarrow> nat \<Rightarrow> command option list \<Rightarrow> command list option" where
  "fill_commands sign priv rnd now i [] = Some []"
| "fill_commands sign priv rnd now i (None # cs) = None"
| "fill_commands sign priv rnd now i (Some c # cs) =
     map_option ((#) (fill_command sign priv rnd (now i) i c)) (fill_commands sign priv rnd now (Suc i) cs)"

definition decode_commands :: "bytes \<Rightarrow> command option list option" where
  "decode_commands = Unmarshal_into (dec_slice (dec_ptr (dec_struct Command_fields) zero_command) None) []"

text \<open>
  \<open>keys\<close> is the generated key pair (public, private), \<open>now\<close> the clock as each command reads it; \<open>file\<close> is \<open>None\<close>
  without a command file, and otherwise what reading it gave.
\<close>

definition newServer ::
  "(bytes \<Rightarrow> bytes \<Rightarrow> bytes) \<Rightarrow> (bytes \<times> bytes) option \<Rightarrow> (nat \<Rightarrow> bytes) \<Rightarrow> (nat \<Rightarrow> int) \<Rightarrow> string \<Rightarrow> bytes option option \<Rightarrow>
   mock_error + mock_server" where
  "newServer sign keys rnd now token file =
     (case keys of
        None \<Rightarrow> Inl KeyFailed
      | Some (pub, priv) \<Rightarrow>
          (let make = (\<lambda>cs. \<lparr>ms_token = token, ms_priv = priv, ms_pub = pub, ms_commands = cs,
                 ms_delivered = False, ms_wsDelivered = False\<rparr>)
           in case file of
             None \<Rightarrow> Inr (make [])
           | Some None \<Rightarrow> Inl CommandFileUnreadable
           | Some (Some data) \<Rightarrow>
               (case decode_commands data of
                  None \<Rightarrow> Inl CommandFileInvalid
                | Some cs \<Rightarrow>
                    (case fill_commands sign priv rnd now 0 cs of
                       None \<Rightarrow> Inl CommandFileNull
                     | Some filled \<Rightarrow> Inr (make filled)))))"

section \<open>Endpoints\<close>

record http_request =
  hr_method :: string
  hr_path :: string
  hr_authorization :: string
  hr_body :: bytes

definition mock_authorized :: "http_request \<Rightarrow> mock_server \<Rightarrow> bool" where
  "mock_authorized q s \<longleftrightarrow> hr_authorization q = ''Bearer '' @ ms_token s"

definition writeJSON :: "int \<Rightarrow> json \<Rightarrow> http_outcome" where
  "writeJSON status body = Response status (json_text body @ [newline])"

text \<open>\<open>err\<close> is the text of the JSON decoder's error.\<close>

definition mock_inventory :: "string \<Rightarrow> http_request \<Rightarrow> mock_server \<Rightarrow> http_outcome" where
  "mock_inventory err q s =
     (if \<not> mock_authorized q s then writeJSON 401 (InventoryAck_json zero_ack)
      else case Decode_into (dec_struct InventoryBatch_fields) zero_batch (hr_body q) of
        None \<Rightarrow> writeJSON 400 (InventoryAck_json (zero_ack\<lparr>ack_Error := err\<rparr>))
      | Some batch \<Rightarrow> writeJSON 200 (InventoryAck_json \<lparr>ack_OK = True, ack_LastSeq = bb_Seq batch, ack_Error = ''''\<rparr>))"

text \<open>The answer of a poll has no \<^verbatim>\<open>omitempty\<close> on its commands, other than \<^verbatim>\<open>protocol.PollResponse\<close>.\<close>

definition pollResponse_json :: "bool \<Rightarrow> command list \<Rightarrow> json" where
  "pollResponse_json ok cs = JObj [(''ok'', JBool ok), (''commands'', JArr (map Command_json cs))]"

definition mock_poll :: "http_request \<Rightarrow> mock_server \<Rightarrow> http_outcome option \<times> mock_server" where
  "mock_poll q s =
     (if \<not> mock_authorized q s then (Some (writeJSON 401 (PollResponse_json zero_response)), s)
      else case Decode_into (dec_struct PollRequest_fields) zero_poll (hr_body q) of
        None \<Rightarrow> (Some (writeJSON 400 (PollResponse_json zero_response)), s)
      | Some req \<Rightarrow>
          if None \<in> set (pb_Reports req) then (None, s)
          else if \<not> ms_delivered s then
            (Some (writeJSON 200 (pollResponse_json True (ms_commands s))), s\<lparr>ms_delivered := True\<rparr>)
          else (Some (writeJSON 200 (pollResponse_json True [])), s))"

text \<open>
  The frames of a WebSocket session: what the server writes given the agent's first frame, and how many of its
  writes succeed. The commands count as delivered once the acknowledgement has been written.
\<close>

definition decode_hello :: "bytes \<Rightarrow> ws_hello option" where
  "decode_hello = Unmarshal_into (dec_struct WsHello_fields) zero_hello"

definition hello_ack :: "bool \<Rightarrow> string \<Rightarrow> bytes" where
  "hello_ack ok msg = ack_frame \<lparr>wa_Type = WsTypeHelloAck, wa_Accepted = ok, wa_Message = msg\<rparr>"

definition mock_ws :: "bytes option \<Rightarrow> nat \<Rightarrow> mock_server \<Rightarrow> bytes list \<times> mock_server" where
  "mock_ws first writes s =
     (case first of
        None \<Rightarrow> ([], s)
      | Some data \<Rightarrow>
          (case decode_hello data of
             None \<Rightarrow> (take writes [hello_ack False ''expected agent_hello''], s)
           | Some hello \<Rightarrow>
               if wh_Type hello \<noteq> WsTypeAgentHello then (take writes [hello_ack False ''expected agent_hello''], s)
               else if wh_Token hello \<noteq> ms_token s then (take writes [hello_ack False ''unauthorized''], s)
               else if writes = 0 then ([], s)
               else if \<not> ms_wsDelivered s then
                 (take writes (hello_ack True '''' # map (\<lambda>c. command_frame (Some c)) (ms_commands s)),
                  s\<lparr>ms_wsDelivered := True\<rparr>)
               else ([hello_ack True ''''], s)))"

text \<open>The frames read after that: a report is logged, a report frame without a report ends the handler.\<close>

fun mock_ws_reports :: "bytes list \<Rightarrow> report list \<times> bool" where
  "mock_ws_reports [] = ([], False)"
| "mock_ws_reports (data # fs) =
     (case decode_envelope data of
        None \<Rightarrow> mock_ws_reports fs
      | Some env \<Rightarrow>
          if we_Type env \<noteq> WsTypeReport then mock_ws_reports fs
          else (case Unmarshal_into (dec_struct WsReportMessage_fields) zero_report_message data of
             None \<Rightarrow> mock_ws_reports fs
           | Some msg \<Rightarrow>
               (case wr_Report msg of
                  None \<Rightarrow> ([], True)
                | Some r \<Rightarrow> (case mock_ws_reports fs of (rs, p) \<Rightarrow> (r # rs, p)))))"

text \<open>The mux (a \<^verbatim>\<open>GET\<close> pattern matches \<^verbatim>\<open>HEAD\<close> as well); the WebSocket upgrade itself is the library's.\<close>

datatype mock_route = RouteInventory | RoutePoll | RouteWs | RouteNone

definition mock_handler :: "http_request \<Rightarrow> mock_route" where
  "mock_handler q =
     (if hr_method q = ''POST'' \<and> hr_path q = ''/audit_ready/k8s/inventory'' then RouteInventory
      else if hr_method q = ''POST'' \<and> hr_path q = ''/audit_ready/k8s/poll'' then RoutePoll
      else if (hr_method q = ''GET'' \<or> hr_method q = ''HEAD'') \<and> hr_path q = ''/audit_ready/k8s/ws'' then RouteWs
      else RouteNone)"

section \<open>The process\<close>

text \<open>
  The command line, as package \<^verbatim>\<open>flag\<close> reads it: one or two dashes, the value after an equals sign or in the next argument; the
  first other argument ends the flags. A mistake ends the process with status 2, a request for help with 0.
\<close>

record mock_flags =
  mf_addr :: string
  mf_token :: string
  mf_commandFile :: string

definition default_flags :: mock_flags where
  "default_flags = \<lparr>mf_addr = ''127.0.0.1:8443'', mf_token = ''dev-token'', mf_commandFile = ''''\<rparr>"

datatype flag_token = NoFlag | BadFlag | FlagArg string "string option"

definition flag_arg :: "string \<Rightarrow> flag_token" where
  "flag_arg s =
     (if length s < 2 \<or> s ! 0 \<noteq> CHR ''-'' \<or> s = ''--'' then NoFlag
      else let name = drop (if s ! 1 = CHR ''-'' then 2 else 1) s; key = takeWhile (\<lambda>c. c \<noteq> CHR ''='') name
      in if name = '''' \<or> hd name = CHR ''-'' \<or> hd name = CHR ''='' then BadFlag
         else FlagArg key (if key = name then None else Some (drop (Suc (length key)) name)))"

definition set_flag :: "string \<Rightarrow> string \<Rightarrow> mock_flags \<Rightarrow> mock_flags option" where
  "set_flag key v f =
     (if key = ''addr'' then Some (f\<lparr>mf_addr := v\<rparr>) else if key = ''token'' then Some (f\<lparr>mf_token := v\<rparr>)
      else if key = ''command-file'' then Some (f\<lparr>mf_commandFile := v\<rparr>) else None)"

fun parse_flags :: "string list \<Rightarrow> mock_flags \<Rightarrow> int + mock_flags" where
  "parse_flags [] f = Inr f"
| "parse_flags (s # args) f =
     (case flag_arg s of
        NoFlag \<Rightarrow> Inr f
      | BadFlag \<Rightarrow> Inl 2
      | FlagArg key v \<Rightarrow>
          if set_flag key '''' f = None then Inl (if key = ''help'' \<or> key = ''h'' then 0 else 2)
          else (case (v, args) of
             (Some x, _) \<Rightarrow> parse_flags args (the (set_flag key x f))
           | (None, []) \<Rightarrow> Inl 2
           | (None, x # rest) \<Rightarrow> parse_flags rest (the (set_flag key x f))))"

text \<open>
  The process prints the agent's settings and serves (on an address) until listening fails, then its status is 1; a
  command file that holds a null is a panic, status 2. \<open>read\<close> gives the content of a file that can be read.
\<close>

definition mock_main ::
  "(bytes \<Rightarrow> bytes \<Rightarrow> bytes) \<Rightarrow> (bytes \<times> bytes) option \<Rightarrow> (nat \<Rightarrow> bytes) \<Rightarrow> (nat \<Rightarrow> int) \<Rightarrow> (string \<Rightarrow> bytes option) \<Rightarrow> string list \<Rightarrow>
   string list \<times> (int + string \<times> mock_server)" where
  "mock_main sign keys rnd now read args =
     (case parse_flags args default_flags of
        Inl status \<Rightarrow> ([], Inl status)
      | Inr f \<Rightarrow>
          (case newServer sign keys rnd now (mf_token f) (if mf_commandFile f = '''' then None else Some (read (mf_commandFile f))) of
             Inl e \<Rightarrow> ([], Inl (if e = CommandFileNull then 2 else 1))
           | Inr srv \<Rightarrow>
               ([''SERVER_TOKEN='' @ mf_token f, ''SERVER_PUBLIC_KEY='' @ base64_EncodeToString (ms_pub srv)],
                Inr (mf_addr f, srv))))"

section \<open>The agent's clients against the server\<close>

text \<open>The bytes the client's \<open>post\<close> reads and how it decodes them.\<close>

definition decode_response :: "bytes \<Rightarrow> poll_response option" where
  "decode_response = Unmarshal_into (dec_struct PollResponse_fields) zero_response"

definition poll_http :: "string \<Rightarrow> poll_request \<Rightarrow> http_request" where
  "poll_http token req =
     \<lparr>hr_method = ''POST'', hr_path = ''/audit_ready/k8s/poll'', hr_authorization = ''Bearer '' @ token,
      hr_body = json_text (PollRequest_json req)\<rparr>"

definition agent_poll ::
  "string \<Rightarrow> poll_request \<Rightarrow> mock_server \<Rightarrow> (post_error + poll_response) \<times> mock_server" where
  "agent_poll token req s =
     (case mock_poll (poll_http token req) s of (out, s') \<Rightarrow>
        (fst (Poll (\<lambda>_ _. case out of None \<Rightarrow> RoundTripFailed ''EOF'' | Some r \<Rightarrow> r) decode_response
           ''http://127.0.0.1:8443/audit_ready'' req), s'))"

section \<open>Facts\<close>

lemma fill_signed:
  "fill_commands sign priv rnd now i cs = Some filled \<Longrightarrow> c \<in> set filled \<Longrightarrow> \<exists>c0. c = Sign sign priv c0"
  by (induction sign priv rnd now i cs arbitrary: filled rule: fill_commands.induct)
     (auto simp: fill_command_def Let_def)

lemma newServer_signed:
  assumes "newServer sign (Some (pub, priv)) rnd now token file = Inr s" "c \<in> set (ms_commands s)"
  shows "\<exists>c0. c = Sign sign priv c0"
  using assms fill_signed by (fastforce simp: newServer_def Let_def split: option.splits)

lemma decode_pollResponse:
  assumes "list_all command_ok cs"
  shows "decode_response (json_text (pollResponse_json True cs) @ [newline]) =
    Some \<lparr>pr_OK = True, pr_Commands = map Some cs\<rparr>"
proof -
  let ?t = "pollResponse_json True cs"
  have "nums_ok ?t" using assms by (auto simp: pollResponse_json_def list_all_iff intro: command_wire.printable)
  moreover have "json_depth ?t \<le> 10000" by (simp add: pollResponse_json_def depth_command)
  moreover have "dec_struct PollResponse_fields zero_response (repair ?t) = Some \<lparr>pr_OK = True, pr_Commands = map Some cs\<rparr>"
    using command_wire.slice_back_all [OF assms]
    by (simp add: pollResponse_json_def PollResponse_fields_def zero_response_def wire_defs)
  ultimately show ?thesis
    by (simp add: decode_response_def Unmarshal_into_def Unmarshal_json_line)
qed

lemma agent_poll_answer:
  assumes "request_ok q" "list_all command_ok (ms_commands s)"
    and "length (json_text (pollResponse_json True (ms_commands s))) < 16 * 2 ^ 20"
  shows "agent_poll (ms_token s) q s =
    (Inr \<lparr>pr_OK = True, pr_Commands = if ms_delivered s then [] else map Some (ms_commands s)\<rparr>, s\<lparr>ms_delivered := True\<rparr>)"
proof -
  have body: "Decode_into (dec_struct PollRequest_fields) zero_poll (hr_body (poll_http (ms_token s) q)) = Some (poll_body_of q)"
    using request_read_back [OF assms(1)] by (simp add: poll_http_def)
  have "length (json_text (pollResponse_json True cs)) < 16 * 2 ^ 20 \<Longrightarrow> list_all command_ok cs \<Longrightarrow>
      fst (post decode_response (writeJSON 200 (pollResponse_json True cs))) = Inr \<lparr>pr_OK = True, pr_Commands = map Some cs\<rparr>" for cs
    by (simp add: post_def writeJSON_def decode_pollResponse)
  moreover have "length (json_text (pollResponse_json True [])) < 16 * 2 ^ 20"
    by (simp add: pollResponse_json_def json_members_def json_quote_def json_escape_plain esc_ascii_def FormatBool_def)
  ultimately show ?thesis
    using assms(2,3) body
    by (simp add: agent_poll_def mock_poll_def mock_authorized_def Poll_def poll_body_of_def poll_http_def)
qed

lemma command_ok_Sign: "command_ok (Sign sign priv c) \<longleftrightarrow> command_ok (c\<lparr>c_Signature := ''''\<rparr>)"
proof -
  have "utf8_valid (base64_EncodeToString b)" "utf8_valid ''''" for b
    by (auto intro!: utf8_valid_ascii simp: base64_EncodeToString_def intro: b64_encode_ascii [of "map of_char b"])
  then show ?thesis by (simp add: command_ok_def Sign_def)
qed

lemma hello_read:
  assumes "utf8_valid (ServerToken cfg)" "utf8_valid (ClusterID cfg)"
  shows "decode_hello (hello_frame cfg) =
    Some \<lparr>wh_Type = WsTypeAgentHello, wh_Token = ServerToken cfg, wh_ClusterID = ClusterID cfg, wh_Version = wsAgentVersion\<rparr>"
  unfolding decode_hello_def hello_frame_def
  by (rule hello_wire.roundtrip) (simp add: hello_ok_def assms utf8_valid_ascii)

lemma mock_ws_answer:
  assumes "utf8_valid (ServerToken cfg)" "utf8_valid (ClusterID cfg)" "ServerToken cfg = ms_token s"
    and "Suc (length (ms_commands s)) \<le> writes" "list_all command_ok (ms_commands s)"
  shows "\<exists>fs. mock_ws (Some (hello_frame cfg)) writes s = (hello_ack True '''' # fs, s\<lparr>ms_wsDelivered := True\<rparr>) \<and>
    map (\<lambda>f. on_frame True (TextFrame f)) fs = (if ms_wsDelivered s then [] else map (\<lambda>c. Handled (Some c)) (ms_commands s))"
proof -
  have "on_frame True (TextFrame (command_frame (Some c))) = Handled (Some c)" if "c \<in> set (ms_commands s)" for c
    using assms(5) that by (intro on_frame_command) (simp add: list_all_iff)
  then show ?thesis
    using assms hello_read [OF assms(1,2)] by (cases s) (auto simp: mock_ws_def)
qed

text \<open>The two printed lines are what an agent needs: the token the server expects and the key it signs with.\<close>

lemma mock_main_settings:
  assumes "mock_main sign (Some (pub, priv)) rnd now read args = (out, Inr (addr, srv))" "length pub = 32"
  shows "\<exists>token key. out = [''SERVER_TOKEN='' @ token, ''SERVER_PUBLIC_KEY='' @ key] \<and> ms_token srv = token \<and>
    (\<forall>cfg. ServerPublicKey cfg = key \<longrightarrow> PublicKey cfg = Inr (ms_pub srv))"
proof -
  obtain f where f: "parse_flags args default_flags = Inr f"
    using assms(1) by (cases "parse_flags args default_flags") (simp_all add: mock_main_def)
  let ?file = "if mf_commandFile f = '''' then None else Some (read (mf_commandFile f))"
  have srv: "newServer sign (Some (pub, priv)) rnd now (mf_token f) ?file = Inr srv"
    using assms(1) f by (cases "newServer sign (Some (pub, priv)) rnd now (mf_token f) ?file") (simp_all add: mock_main_def)
  then have "ms_token srv = mf_token f" "ms_pub srv = pub"
    by (auto simp: newServer_def Let_def split: option.splits)
  then show ?thesis
    using assms f srv PublicKey_base64 by (intro exI [of _ "mf_token f"] exI [of _ "base64_EncodeToString pub"]) (simp add: mock_main_def)
qed

lemma parse_token_flag:
  "parse_flags [''-token'', v] f = Inr (f\<lparr>mf_token := v\<rparr>)" "parse_flags [''--token='' @ v] f = Inr (f\<lparr>mf_token := v\<rparr>)"
  by (simp_all add: flag_arg_def set_flag_def)

section \<open>Properties\<close>


text \<open>A command file with one command, and a key pair whose signatures are a constant.\<close>

definition demo_file :: bytes where
  "demo_file = json_text (JArr [Command_json demo_command])"

definition mock_signed :: command where
  "mock_signed = demo_command\<lparr>c_Signature := ''c2ln''\<rparr>"

definition demo_server :: mock_server where
  "demo_server =
     \<lparr>ms_token = ''dev-token'', ms_priv = ''sk'', ms_pub = ''pk'', ms_commands = [mock_signed], ms_delivered = False,
      ms_wsDelivered = False\<rparr>"

lemma demo_command_ok: "command_ok demo_command" "command_ok mock_signed"
  by (simp_all add: mock_signed_def command_ok_def ref_ok_def demo_command_def int64_ok_def utf8_valid_ascii)

lemma demo_newServer:
  "newServer (\<lambda>_ _. ''sig'') (Some (''pk'', ''sk'')) (\<lambda>_. []) (\<lambda>_. 0) ''dev-token'' (Some (Some demo_file)) = Inr demo_server"
proof -
  have "nums_ok (JArr [Command_json demo_command])" using command_wire.printable demo_command_ok(1) by simp
  then have "Unmarshal demo_file = Some (repair (JArr [Command_json demo_command]))"
    unfolding demo_file_def by (rule Unmarshal_json_text) (simp add: depth_command)
  then have "decode_commands demo_file = Some [Some demo_command]"
    using command_wire.slice_back_all [of "[demo_command]"] demo_command_ok(1)
    by (simp add: decode_commands_def Unmarshal_into_def)
  moreover have "base64_EncodeToString ''sig'' = ''c2ln''" by code_simp
  then have "fill_command (\<lambda>_ _. ''sig'') ''sk'' (\<lambda>_. []) 0 0 demo_command = mock_signed"
    by (simp add: fill_command_def Sign_def demo_command_def mock_signed_def)
  ultimately show ?thesis by (simp add: newServer_def demo_server_def)
qed

lemma demo_body_fits: "length (json_text (pollResponse_json True [mock_signed])) < 16 * 2 ^ 20"
proof -
  have "base64_EncodeToString ''{}'' = ''e30=''" by code_simp
  then show ?thesis
    by (simp add: pollResponse_json_def Command_json_def ResourceRef_json_def mock_signed_def demo_command_def wire_defs
        json_members_def json_quote_def json_escape_plain esc_ascii_def FormatInt_def FormatBool_def dec_nat.simps)
qed


end
