(* ===== verification/Mirror.thy ===== *)
theory Mirror
  imports Upload_Run Informers
begin

text \<open>
  The inventory path as a whole: the caches of the informers, the handlers of \<^verbatim>\<open>internal/informers\<close>, the uploader
  with its loop, and the inventory the control plane keeps. The control plane is a parameter: a state, the effect of a batch and
  the row it shows for an object; \<^verbatim>\<open>SERVER.md\<close> documents that batches are applied last-write-wins. A shared informer updates
  its cache first and then notifies each registered handler, in order, at its own pace.
\<close>

section \<open>Last write wins\<close>

definition writes :: "('k \<times> 'v option) list \<Rightarrow> ('k \<Rightarrow> 'v option) \<Rightarrow> 'k \<Rightarrow> 'v option" where
  "writes xs f = fold (\<lambda>(k, v) f. f(k := v)) xs f"

lemma writes_Nil [simp]: "writes [] f = f"
  by (simp add: writes_def)

lemma writes_append [simp]: "writes (xs @ ys) f = writes ys (writes xs f)"
  by (simp add: writes_def)

lemma writes_single [simp]: "writes [(k, v)] f = f(k := v)"
  by (simp add: writes_def)

lemma writes_other: "k \<notin> fst ` set xs \<Longrightarrow> writes xs f k = f k"
  by (induction xs arbitrary: f) (auto simp: writes_def)

lemma writes_cong: "k \<in> fst ` set xs \<Longrightarrow> writes xs f k = writes xs g k"
proof (induction xs rule: rev_induct)
  case (snoc x xs)
  then show ?case by (cases x) auto
qed simp

lemma writes_at: "f k = g k \<Longrightarrow> writes xs f k = writes xs g k"
  by (cases "k \<in> fst ` set xs") (auto simp: writes_other intro: writes_cong)

lemma writes_const: "(\<And>v. (k, v) \<in> set xs \<Longrightarrow> v = f k) \<Longrightarrow> writes xs f k = f k"
proof (induction xs rule: rev_induct)
  case (snoc x xs)
  then show ?case by (cases x) auto
qed simp

lemma find_key: "distinct (map f xs) \<Longrightarrow> x \<in> set xs \<Longrightarrow> List.find (\<lambda>y. f y = f x) xs = Some x"
  by (induction xs) (auto simp: rev_image_eqI)

section \<open>Rows\<close>

type_synonym rows = "resource_ref \<Rightarrow> bytes option"

definition row_write :: "inventory_event \<Rightarrow> resource_ref \<times> bytes option" where
  "row_write ev = (ev_Ref ev, if ev_Op ev = OpDelete then None else Some (ev_ObjectJSON ev))"

abbreviation event_writes :: "inventory_event list \<Rightarrow> rows \<Rightarrow> rows" where
  "event_writes evs \<equiv> writes (map row_write evs)"

definition known_op :: "inventory_event \<Rightarrow> bool" where
  "known_op ev \<longleftrightarrow> ev_Op ev \<in> {OpAdd, OpUpdate, OpDelete, OpSync}"

text \<open>The documented effect of a batch; an operation the server does not know is left open.\<close>

definition server_law :: "(inventory_batch \<Rightarrow> 's \<Rightarrow> 's) \<Rightarrow> ('s \<Rightarrow> rows) \<Rightarrow> bool" where
  "server_law app row \<longleftrightarrow>
     (\<forall>b s. list_all known_op (ib_Events b) \<longrightarrow> row (app b s) = event_writes (ib_Events b) (row s))"

text \<open>The row an object of the cluster should have.\<close>

definition ref_of :: "unstr \<Rightarrow> gvr \<Rightarrow> jobj \<Rightarrow> resource_ref" where
  "ref_of U g m = \<lparr>rr_Group = g_Group g, rr_Version = g_Version g, rr_Resource = g_Resource g,
     rr_Namespace = GetNamespace U m, rr_Name = GetName U m\<rparr>"

definition gvr_of_ref :: "resource_ref \<Rightarrow> gvr" where
  "gvr_of_ref r = mk_gvr (rr_Group r) (rr_Version r) (rr_Resource r)"

definition uploaded :: "unstr \<Rightarrow> gvr \<Rightarrow> jobj \<Rightarrow> bytes" where
  "uploaded U g m = Marshal (JObj (if g = mk_gvr '''' ''v1'' ''secrets'' then stripSecret U m else m))"

definition cache_row :: "unstr \<Rightarrow> (gvr \<Rightarrow> jobj list) \<Rightarrow> rows" where
  "cache_row U store r =
     (let g = gvr_of_ref r in map_option (uploaded U g) (List.find (\<lambda>m. ref_of U g m = r) (store g)))"

lemma gvr_of_ref_of [simp]: "gvr_of_ref (ref_of U g m) = g"
  by (cases g) (simp add: gvr_of_ref_def ref_of_def mk_gvr_def)

section \<open>The system\<close>

type_synonym notification = "string \<times> informer_obj"

record 's mirror_sys =
  mi_up :: up_sys
  mi_mgr :: manager
  mi_store :: "gvr \<Rightarrow> jobj list"
  mi_notes :: "nat \<Rightarrow> notification list"
  mi_srv :: 's

definition store_del :: "unstr \<Rightarrow> gvr \<Rightarrow> jobj \<Rightarrow> jobj list \<Rightarrow> jobj list" where
  "store_del U g m ms = filter (\<lambda>m'. ref_of U g m' \<noteq> ref_of U g m) ms"

definition store_put :: "unstr \<Rightarrow> gvr \<Rightarrow> jobj \<Rightarrow> jobj list \<Rightarrow> jobj list" where
  "store_put U g m ms = m # store_del U g m ms"

definition handles :: "manager \<Rightarrow> gvr \<Rightarrow> nat \<Rightarrow> bool" where
  "handles mgr g i \<longleftrightarrow> i < length (mg_handlers mgr) \<and> w_GVR (mg_handlers mgr ! i) = g"

definition noted :: "gvr \<Rightarrow> notification \<Rightarrow> 's mirror_sys \<Rightarrow> 's mirror_sys" where
  "noted g n s = s\<lparr>mi_notes := (\<lambda>i. mi_notes s i @ (if handles (mi_mgr s) g i then [n] else []))\<rparr>"

abbreviation snapshot_of :: "unstr \<Rightarrow> int \<Rightarrow> 's mirror_sys \<Rightarrow> inventory_event list" where
  "snapshot_of U now s \<equiv> Snapshot U now (\<lambda>g. map Obj (mi_store s g)) (mi_mgr s)"

text \<open>The server has applied an acknowledged batch; of one whose request failed, it may have.\<close>

definition server_after :: "(inventory_batch \<Rightarrow> 's \<Rightarrow> 's) \<Rightarrow> up_label \<Rightarrow> 's \<Rightarrow> 's set" where
  "server_after app l s = (case l of Acked b \<Rightarrow> {app b s} | Failed b _ \<Rightarrow> {s, app b s} | _ \<Rightarrow> {s})"

text \<open>
  An object appears or changes, an object disappears (the notification carries its last known state, in a tombstone if the
  deletion was missed), a handler takes its next notification, the uploader's loop makes a step. The guard on \<open>deliver\<close> says
  that the buffer has room: the runs considered here do not spill to disk.
\<close>

inductive mirror_step ::
  "unstr \<Rightarrow> (inventory_batch \<Rightarrow> 's \<Rightarrow> 's) \<Rightarrow> 's mirror_sys \<Rightarrow> 's mirror_sys \<Rightarrow> bool"
  for U :: unstr and app :: "inventory_batch \<Rightarrow> 's \<Rightarrow> 's" where
  put: "handles (mi_mgr s) g i \<Longrightarrow> op \<in> {OpAdd, OpUpdate} \<Longrightarrow>
     mirror_step U app s (noted g (op, Obj m) (s\<lparr>mi_store := (mi_store s)(g := store_put U g m (mi_store s g))\<rparr>))"
| removed: "handles (mi_mgr s) g i \<Longrightarrow> obj \<in> {Obj m, Tombstone (Obj m)} \<Longrightarrow>
     mirror_step U app s (noted g (OpDelete, obj) (s\<lparr>mi_store := (mi_store s)(g := store_del U g m (mi_store s g))\<rparr>))"
| deliver: "i < length (mg_handlers (mi_mgr s)) \<Longrightarrow> mi_notes s i = (op, obj) # rest \<Longrightarrow>
     length (up_buf (us_u (mi_up s))) < up_capacity (us_u (mi_up s)) \<Longrightarrow>
     handle U now io op obj (mg_handlers (mi_mgr s) ! i) (mi_mgr s, us_u (mi_up s), us_d (mi_up s)) = (mgr', u', d') \<Longrightarrow>
     mirror_step U app s
       (s\<lparr>mi_mgr := mgr', mi_up := (mi_up s)\<lparr>us_u := u', us_d := d'\<rparr>, mi_notes := (mi_notes s)(i := rest)\<rparr>)"
| run: "run_step (snapshot_of U now s) send io (mi_up s) = (l, up') \<Longrightarrow> srv' \<in> server_after app l (mi_srv s) \<Longrightarrow>
     mirror_step U app s (s\<lparr>mi_up := up', mi_srv := srv'\<rparr>)"

text \<open>The process starts with empty caches, against whatever the server already holds.\<close>

definition mirror_start :: "config \<Rightarrow> fs_io \<Rightarrow> disk \<Rightarrow> manager \<Rightarrow> 's \<Rightarrow> 's mirror_sys" where
  "mirror_start cfg io d mgr srv =
     \<lparr>mi_up = up_start cfg io d, mi_mgr = mgr, mi_store = (\<lambda>_. []), mi_notes = (\<lambda>_. []), mi_srv = srv\<rparr>"

inductive mirror_reach ::
  "unstr \<Rightarrow> (inventory_batch \<Rightarrow> 's \<Rightarrow> 's) \<Rightarrow> 's mirror_sys \<Rightarrow> 's mirror_sys \<Rightarrow> bool"
  for U :: unstr and app :: "inventory_batch \<Rightarrow> 's \<Rightarrow> 's" and s0 :: "'s mirror_sys" where
  start: "mirror_reach U app s0 s0"
| step: "mirror_reach U app s0 s \<Longrightarrow> mirror_step U app s s' \<Longrightarrow> mirror_reach U app s0 s'"

section \<open>Notifications and snapshots as writes\<close>

fun base_obj :: "informer_obj \<Rightarrow> jobj option" where
  "base_obj (Obj m) = Some m"
| "base_obj (Tombstone (Obj m)) = Some m"
| "base_obj _ = None"

definition note_write :: "unstr \<Rightarrow> gvr \<Rightarrow> notification \<Rightarrow> resource_ref \<times> bytes option" where
  "note_write U g n =
     (let m = the (base_obj (snd n)) in (ref_of U g m, if fst n = OpDelete then None else Some (uploaded U g m)))"

definition note_ok :: "notification \<Rightarrow> bool" where
  "note_ok n \<longleftrightarrow> fst n \<in> {OpAdd, OpUpdate, OpDelete} \<and> base_obj (snd n) \<noteq> None"

lemma toEvent_base:
  assumes "base_obj obj = Some m" "sec \<longleftrightarrow> g = mk_gvr '''' ''v1'' ''secrets''"
  obtains ev where "toEvent U now op g obj sec = Inr ev" "ev_Op ev = op" "ev_Ref ev = ref_of U g m"
    "ev_ObjectJSON ev = uploaded U g m"
  using assms by (cases obj rule: base_obj.cases) (auto simp: toEvent_def ref_of_def uploaded_def)

lemma handle_room:
  assumes "flags_ok mgr" "i < length (mg_handlers mgr)" "note_ok (op, obj)" "length (up_buf u) < up_capacity u"
    and "handle U now io op obj (mg_handlers mgr ! i) (mgr, u, d) = (mgr', u', d')"
  obtains ev where "up_buf u' = up_buf u @ [ev]" "row_write ev = note_write U (w_GVR (mg_handlers mgr ! i)) (op, obj)"
    "known_op ev" "d' = d" "up_needSnapshot u' = up_needSnapshot u" "mg_handlers mgr' = mg_handlers mgr"
    "mg_informers mgr' = mg_informers mgr"
proof -
  let ?w = "mg_handlers mgr ! i"
  obtain m where m: "base_obj obj = Some m" using assms(3) by (auto simp: note_ok_def)
  have "w_Secret ?w \<longleftrightarrow> w_GVR ?w = mk_gvr '''' ''v1'' ''secrets''"
    using assms(1,2) by (simp add: flags_ok_def)
  with m obtain ev where ev: "toEvent U now op (w_GVR ?w) obj (w_Secret ?w) = Inr ev" "ev_Op ev = op"
      "ev_Ref ev = ref_of U (w_GVR ?w) m" "ev_ObjectJSON ev = uploaded U (w_GVR ?w) m"
    using toEvent_base by blast
  then show ?thesis
    using assms(3-5) m that [of ev]
    by (auto simp: handle_def Enqueue_def signal_def Let_def row_write_def note_write_def known_op_def note_ok_def)
qed

lemma snapshot_writes:
  assumes "flags_ok (mi_mgr s)" "\<forall>g. distinct (map (ref_of U g) (mi_store s g))" "ev \<in> set (snapshot_of U now s)"
  shows "known_op ev \<and> snd (row_write ev) = cache_row U (mi_store s) (fst (row_write ev))"
proof -
  obtain g sec m where g: "(g, sec) \<in> set (mg_informers (mi_mgr s))" "m \<in> set (mi_store s g)"
      "toEvent U now OpSync g (Obj m) sec = Inr ev"
    using assms(3) by (auto simp: Snapshot_def List.map_filter_def split: sum.splits)
  then have ev: "ev_Op ev = OpSync" "ev_Ref ev = ref_of U g m" "ev_ObjectJSON ev = uploaded U g m"
    using assms(1) by (auto simp: toEvent_def ref_of_def uploaded_def flags_ok_def)
  have "List.find (\<lambda>m'. ref_of U g m' = ref_of U g m) (mi_store s g) = Some m"
    using g(2) assms(2) by (intro find_key) auto
  then show ?thesis
    using ev by (simp add: known_op_def row_write_def cache_row_def)
qed

section \<open>One step of the loop without a spill file\<close>

definition up_pend :: "up_sys \<Rightarrow> inventory_event list" where
  "up_pend s = in_flight (us_pc s) @ up_buf (us_u s)"

definition up_snap :: "up_sys \<Rightarrow> inventory_event list" where
  "up_snap s = (case us_pc s of InSnapshot evs \<Rightarrow> evs | _ \<Rightarrow> [])"

definition up_calm :: "up_sys \<Rightarrow> bool" where
  "up_calm s \<longleftrightarrow> dk_spill (us_d s) = None \<and>
     (case us_pc s of Sending batch \<Rightarrow> batch \<noteq> [] \<and> \<not> up_needSnapshot (us_u s) | _ \<Rightarrow> True)"

text \<open>What a step of the loop does to the pending events and the rest of the snapshot, and which events it sends.\<close>

definition sent_by :: "up_label \<Rightarrow> inventory_event list" where
  "sent_by l = (case l of Acked b \<Rightarrow> ib_Events b | Failed b _ \<Rightarrow> ib_Events b | _ \<Rightarrow> [])"

lemma take_calm:
  assumes "dk_spill d = None" "up_take io n (u, d) = (batch, u', d')"
  shows "up_buf u = batch @ up_buf u' \<and> d' = d \<and> up_needSnapshot u' = up_needSnapshot u"
  using assms by (cases "up_buf u = []") (auto simp: up_take_def replaySpillLocked_def Let_def)

lemma sendBatch_frame:
  "sendBatch send io evs full (u, d) = (e, u', d') \<Longrightarrow>
   up_buf u' = up_buf u \<and> dk_spill d' = dk_spill d \<and> up_needSnapshot u' = up_needSnapshot u"
  by (auto simp: sendBatch_def persistSeq_def Let_def split: sum.splits if_splits)

lemma run_calm:
  assumes calm: "up_calm s" and step: "run_step snap send io s = (l, s')"
  shows "up_calm s' \<and>
    ((up_pend s' = up_pend s \<and> set (sent_by l) \<subseteq> set (up_snap s) \<and> set (up_snap s') \<subseteq> set (up_snap s)) \<or>
     (up_pend s' = up_pend s \<and> sent_by l = [] \<and> up_snap s' = snap) \<or>
     (\<exists>rest. up_pend s = sent_by l @ rest \<and> up_snap s' = [] \<and>
        (up_pend s' = up_pend s \<and> (\<exists>b e. l = Failed b e) \<or> up_pend s' = rest \<and> (\<exists>b. l = Acked b))))"
proof (cases "us_pc s")
  case AtTop
  show ?thesis
  proof (cases "up_needSnapshot (us_u s)")
    case True
    with AtTop assms show ?thesis
      by (auto simp: run_step_def up_calm_def up_pend_def up_snap_def in_flight_def sent_by_def)
  next
    case False
    obtain batch u' d' where t: "up_take io batchSize (us_u s, us_d s) = (batch, u', d')"
      by (metis prod_cases3)
    have "dk_spill (us_d s) = None" using calm by (simp add: up_calm_def)
    from take_calm [OF this t] False AtTop step t this show ?thesis
      by (auto simp: run_step_def up_calm_def up_pend_def up_snap_def in_flight_def sent_by_def split: if_splits)
  qed
next
  case (InSnapshot evs)
  show ?thesis
  proof (cases "evs = []")
    case True
    with InSnapshot assms show ?thesis
      by (auto simp: run_step_def up_calm_def up_pend_def up_snap_def in_flight_def sent_by_def)
  next
    case False
    let ?n = "batchLen evs batchSize (up_maxBatchBytes (us_u s))"
    obtain e u' d' where b: "sendBatch send io (take ?n evs) True (us_u s, us_d s) = (e, u', d')"
      by (metis prod_cases3)
    have "set (take ?n evs) \<subseteq> set evs" "set (drop ?n evs) \<subseteq> set evs" by (simp_all add: set_take_subset set_drop_subset)
    with sendBatch_frame [OF b] b False InSnapshot assms show ?thesis
      by (auto simp: run_step_def up_calm_def up_pend_def up_snap_def in_flight_def sent_by_def batch_of_def Let_def
          split: option.splits)
  qed
next
  case (Sending batch)
  obtain e u' d' where b: "sendBatch send io batch False (us_u s, us_d s) = (e, u', d')"
    by (metis prod_cases3)
  from sendBatch_frame [OF b] b Sending assms show ?thesis
    by (auto simp: run_step_def up_calm_def up_pend_def up_snap_def in_flight_def sent_by_def batch_of_def
        requeueFront_def signal_def Let_def split: option.splits)
qed

section \<open>The invariant\<close>

abbreviation note_writes :: "unstr \<Rightarrow> 's mirror_sys \<Rightarrow> nat \<Rightarrow> (resource_ref \<times> bytes option) list" where
  "note_writes U s i \<equiv> map (note_write U (w_GVR (mg_handlers (mi_mgr s) ! i))) (mi_notes s i)"

definition mirror_wf :: "unstr \<Rightarrow> 's mirror_sys \<Rightarrow> bool" where
  "mirror_wf U s \<longleftrightarrow>
     flags_ok (mi_mgr s) \<and> up_calm (mi_up s) \<and> (\<forall>g. distinct (map (ref_of U g) (mi_store s g))) \<and>
     (\<forall>i. list_all note_ok (mi_notes s i)) \<and> (\<forall>i \<ge> length (mg_handlers (mi_mgr s)). mi_notes s i = []) \<and>
     list_all known_op (up_pend (mi_up s)) \<and> list_all known_op (up_snap (mi_up s))"

text \<open>
  The state of one object: a handler that still has notifications about it ends with its state in the cache; and if no handler
  has, then the server will show that state once the pending events have arrived, and what is left of the snapshot
  agrees with it unless a pending event follows.
\<close>

definition untold :: "unstr \<Rightarrow> 's mirror_sys \<Rightarrow> resource_ref \<Rightarrow> bool" where
  "untold U s r \<longleftrightarrow> (\<exists>i. r \<in> fst ` set (note_writes U s i))"

definition arriving :: "rows \<Rightarrow> up_sys \<Rightarrow> resource_ref \<Rightarrow> bytes option \<Rightarrow> bool" where
  "arriving f u r v \<longleftrightarrow>
     event_writes (up_pend u) f r = v \<and>
     (r \<in> ev_Ref ` set (up_pend u) \<or> (\<forall>ev \<in> set (up_snap u). ev_Ref ev = r \<longrightarrow> snd (row_write ev) = v))"

definition settled :: "unstr \<Rightarrow> ('s \<Rightarrow> rows) \<Rightarrow> 's mirror_sys \<Rightarrow> resource_ref \<Rightarrow> bool" where
  "settled U row s r \<longleftrightarrow>
     (\<forall>i. r \<in> fst ` set (note_writes U s i) \<longrightarrow> writes (note_writes U s i) (\<lambda>_. None) r = cache_row U (mi_store s) r) \<and>
     (\<not> untold U s r \<longrightarrow> arriving (row (mi_srv s)) (mi_up s) r (cache_row U (mi_store s) r))"

lemma fst_row_write [simp]: "fst (row_write ev) = ev_Ref ev"
  by (simp add: row_write_def)

lemma refs_of_writes [simp]: "fst ` row_write ` A = ev_Ref ` A"
  by (simp add: image_comp comp_def)

lemma arriving_snapshot:
  assumes "arriving f u r v" "set evs \<subseteq> set (up_snap u)" "up_pend u' = up_pend u" "set (up_snap u') \<subseteq> set (up_snap u)"
  shows "arriving (event_writes evs f) u' r v"
proof (cases "r \<in> ev_Ref ` set (up_pend u)")
  case True
  then have "event_writes (up_pend u) (event_writes evs f) r = event_writes (up_pend u) f r"
    by (intro writes_cong) simp
  then show ?thesis using assms True by (simp add: arriving_def)
next
  case False
  then have f: "f r = v" "event_writes (up_pend u) (event_writes evs f) r = event_writes evs f r"
    using assms(1) by (simp_all add: arriving_def writes_other)
  moreover have "event_writes evs f r = f r"
    using assms(1,2) False f(1) by (intro writes_const) (force simp: arriving_def row_write_def)
  ultimately show ?thesis using assms False by (auto simp: arriving_def)
qed

lemma arriving_batch:
  assumes "arriving f u r v" "up_pend u = evs @ rest" "up_snap u' = []" "up_pend u' = rest \<or> up_pend u' = up_pend u"
  shows "arriving (event_writes evs f) u' r v"
proof -
  have "event_writes evs (event_writes evs f) r = event_writes evs f r"
    by (cases "r \<in> ev_Ref ` set evs") (auto simp: writes_other intro: writes_cong)
  then have "event_writes rest (event_writes evs (event_writes evs f)) r = event_writes rest (event_writes evs f) r"
    by (rule writes_at)
  then show ?thesis using assms by (auto simp: arriving_def)
qed

lemma arriving_lost:
  assumes "arriving f u r v" "up_pend u' = up_pend u" "up_snap u' = []"
  shows "arriving f u' r v"
  using assms by (simp add: arriving_def)

lemma run_settles:
  assumes wf: "mirror_wf U s" and law: "server_law app row"
    and step: "run_step (snapshot_of U now s) send io (mi_up s) = (l, up')" "srv' \<in> server_after app l (mi_srv s)"
    and arr: "arriving (row (mi_srv s)) (mi_up s) r (cache_row U (mi_store s) r)"
  shows "arriving (row srv') up' r (cache_row U (mi_store s) r)"
proof -
  let ?v = "cache_row U (mi_store s) r"
  have calm: "up_calm (mi_up s)" and ok: "list_all known_op (up_pend (mi_up s))" "list_all known_op (up_snap (mi_up s))"
    using wf by (simp_all add: mirror_wf_def)
  have srv: "row srv' = row (mi_srv s) \<and> (\<nexists>b. l = Acked b) \<or> row srv' = event_writes (sent_by l) (row (mi_srv s))"
    if "list_all known_op (sent_by l)"
    using step(2) law that by (auto simp: server_after_def sent_by_def server_law_def split: up_label.splits)
  from run_calm [OF calm step(1)] consider
      (snap) "up_pend up' = up_pend (mi_up s)" "set (sent_by l) \<subseteq> set (up_snap (mi_up s))"
        "set (up_snap up') \<subseteq> set (up_snap (mi_up s))"
    | (fetch) "up_pend up' = up_pend (mi_up s)" "sent_by l = []" "up_snap up' = snapshot_of U now s"
    | (batch) rest where "up_pend (mi_up s) = sent_by l @ rest" "up_snap up' = []"
        "up_pend up' = up_pend (mi_up s) \<and> (\<exists>b e. l = Failed b e) \<or> up_pend up' = rest \<and> (\<exists>b. l = Acked b)"
    by blast
  then show ?thesis
  proof cases
    case snap
    then have "list_all known_op (sent_by l)" using ok(2) by (auto simp: list_all_iff)
    with srv arriving_snapshot [OF arr snap(2,1,3)] arriving_snapshot [OF arr, of "[]", OF _ snap(1,3)] show ?thesis
      by auto
  next
    case fetch
    then have "row srv' = row (mi_srv s)" using srv by auto
    moreover have "snd (row_write ev) = ?v" if "ev \<in> set (up_snap up')" "ev_Ref ev = r" for ev
      using snapshot_writes [of s U ev now] wf that fetch(3) by (auto simp: mirror_wf_def)
    ultimately show ?thesis using arr fetch(1) by (auto simp: arriving_def)
  next
    case batch
    then have "list_all known_op (sent_by l)" using ok(1) by simp
    from srv [OF this] batch(3) arriving_batch [OF arr batch(1,2)] arriving_lost [OF arr _ batch(2)] show ?thesis
      by auto
  qed
qed

lemma cache_put:
  "cache_row U (store(g := store_put U g m (store g))) = (cache_row U store)(ref_of U g m := Some (uploaded U g m))"
proof
  fix r
  have "List.find (\<lambda>m'. ref_of U g m' = r) (store_del U g m ms) = List.find (\<lambda>m'. ref_of U g m' = r) ms"
    if "r \<noteq> ref_of U g m" for ms
    using that by (induction ms) (auto simp: store_del_def)
  then show "cache_row U (store(g := store_put U g m (store g))) r =
      ((cache_row U store)(ref_of U g m := Some (uploaded U g m))) r"
    by (auto simp: cache_row_def store_put_def Let_def)
qed

lemma cache_del:
  "cache_row U (store(g := store_del U g m (store g))) = (cache_row U store)(ref_of U g m := None)"
proof
  fix r
  have "List.find (\<lambda>m'. ref_of U g m' = r) (store_del U g m ms) =
      (if r = ref_of U g m then None else List.find (\<lambda>m'. ref_of U g m' = r) ms)" for ms
    by (induction ms) (auto simp: store_del_def)
  then show "cache_row U (store(g := store_del U g m (store g))) r = ((cache_row U store)(ref_of U g m := None)) r"
    by (auto simp: cache_row_def Let_def)
qed

lemma note_writes_noted:
  "note_writes U (noted g n s) i = note_writes U s i @ (if handles (mi_mgr s) g i then [note_write U g n] else [])"
  by (auto simp: noted_def handles_def)

lemma gvr_of_note [simp]: "gvr_of_ref (fst (note_write U g n)) = g"
  by (simp add: note_write_def Let_def)

text \<open>A change of the cache settles the object it is about and leaves the others as they are.\<close>

lemma noted_settles:
  fixes s :: "'s mirror_sys"
  assumes wf: "mirror_wf U s" and i: "handles (mi_mgr s) g i" and n: "note_write U g n = (r0, v0)"
    and c: "cache_row U store' = (cache_row U (mi_store s))(r0 := v0)" and old: "r \<noteq> r0 \<Longrightarrow> settled U row s r"
  shows "settled U row (noted g n (s\<lparr>mi_store := store'\<rparr>)) r"
proof -
  let ?s = "noted g n (s\<lparr>mi_store := store'\<rparr>)"
  have nw: "note_writes U ?s j = note_writes U s j @ (if handles (mi_mgr s) g j then [(r0, v0)] else [])" for j
    using note_writes_noted [of U g n "s\<lparr>mi_store := store'\<rparr>" j] n by simp
  have same: "mi_srv ?s = mi_srv s" "mi_up ?s = mi_up s" "mi_store ?s = store'" by (simp_all add: noted_def)
  show ?thesis
  proof (cases "r = r0")
    case True
    have "handles (mi_mgr s) g j" if "r0 \<in> fst ` set (note_writes U s j)" for j
    proof -
      have "j < length (mg_handlers (mi_mgr s))" using that wf by (force simp: mirror_wf_def not_le [symmetric])
      moreover have "gvr_of_ref r0 = w_GVR (mg_handlers (mi_mgr s) ! j)" using that by auto
      moreover have "gvr_of_ref r0 = g" using n gvr_of_note [of U g n] by simp
      ultimately show ?thesis by (simp add: handles_def)
    qed
    then have "writes (note_writes U ?s j) (\<lambda>_. None) r = v0" if "r \<in> fst ` set (note_writes U ?s j)" for j
      using that True unfolding nw by (cases "handles (mi_mgr s) g j") auto
    moreover have "untold U ?s r" using i True unfolding untold_def nw by (intro exI [of _ i]) simp
    ultimately show ?thesis unfolding settled_def same c using True by simp
  next
    case False
    then have "r \<in> fst ` set (note_writes U ?s j) \<longleftrightarrow> r \<in> fst ` set (note_writes U s j)"
        "writes (note_writes U ?s j) (\<lambda>_. None) r = writes (note_writes U s j) (\<lambda>_. None) r" for j
      unfolding nw by auto
    moreover from this have "untold U ?s r \<longleftrightarrow> untold U s r" by (simp add: untold_def)
    ultimately show ?thesis using old [OF False] False unfolding settled_def same c by simp
  qed
qed

text \<open>Handling a notification moves it to the end of the pending events.\<close>

lemma deliver_settles:
  fixes s s' :: "'s mirror_sys"
  assumes old: "settled U row s r" and i: "note_writes U s i = row_write ev # note_writes U s' i"
    and nw: "\<And>j. j \<noteq> i \<Longrightarrow> note_writes U s' j = note_writes U s j"
    and up: "up_pend (mi_up s') = up_pend (mi_up s) @ [ev]" "up_snap (mi_up s') = up_snap (mi_up s)"
    and same: "mi_store s' = mi_store s" "mi_srv s' = mi_srv s"
  shows "settled U row s' r"
proof -
  obtain rx vx where x: "row_write ev = (rx, vx)" by fastforce
  have ref: "ev_Ref ev = rx" using fst_row_write [of ev] x by simp
  have i': "writes (note_writes U s i) f = writes (note_writes U s' i) (f(rx := vx))" for f
    unfolding i x by (simp add: writes_def)
  have "writes (note_writes U s' j) (\<lambda>_. None) r = cache_row U (mi_store s) r" if j: "r \<in> fst ` set (note_writes U s' j)" for j
  proof (cases "j = i")
    case True
    then have "r \<in> fst ` set (note_writes U s i)" using j i by auto
    then have "writes (note_writes U s i) (\<lambda>_. None) r = cache_row U (mi_store s) r" using old by (simp add: settled_def)
    moreover have "writes (note_writes U s' i) ((\<lambda>_. None)(rx := vx)) r = writes (note_writes U s' i) (\<lambda>_. None) r"
      using j True by (intro writes_cong) simp
    ultimately show ?thesis using i' True by simp
  next
    case False
    then show ?thesis using j old unfolding nw [OF False] by (simp add: settled_def)
  qed
  moreover have "arriving (row (mi_srv s)) (mi_up s') r (cache_row U (mi_store s) r)" if u: "\<not> untold U s' r"
  proof (cases "r = rx")
    case True
    have "r \<in> fst ` set (note_writes U s i)" unfolding i x using True by simp
    then have "writes (note_writes U s i) (\<lambda>_. None) r = cache_row U (mi_store s) r"
      using old unfolding settled_def by blast
    moreover have "writes (note_writes U s' i) f r = f r" for f using u by (intro writes_other) (auto simp: untold_def)
    ultimately have "vx = cache_row U (mi_store s) r" using i' True by simp
    then show ?thesis using True ref x unfolding arriving_def up by simp
  next
    case False
    have none: "r \<notin> fst ` set (note_writes U s' j)" for j using u unfolding untold_def by blast
    have "r \<notin> fst ` set (note_writes U s j)" for j
    proof (cases "j = i")
      case True
      then show ?thesis using none [of i] False unfolding True i x by simp
    next
      case False
      show ?thesis using none [of j] unfolding nw [OF False] .
    qed
    then have "\<not> untold U s r" unfolding untold_def by blast
    then show ?thesis using old False ref x unfolding settled_def arriving_def up by simp
  qed
  ultimately show ?thesis unfolding settled_def same by blast
qed

definition mirror_inv :: "unstr \<Rightarrow> ('s \<Rightarrow> rows) \<Rightarrow> rows \<Rightarrow> 's mirror_sys \<Rightarrow> bool" where
  "mirror_inv U row f0 s \<longleftrightarrow> mirror_wf U s \<and>
     (\<forall>r. f0 r = None \<or> cache_row U (mi_store s) r \<noteq> None \<longrightarrow> settled U row s r)"

lemma wf_noted:
  fixes s :: "'s mirror_sys"
  assumes "mirror_wf U s" "note_ok n" "distinct (map (ref_of U g) ms)"
  shows "mirror_wf U (noted g n (s\<lparr>mi_store := (mi_store s)(g := ms)\<rparr>))"
  using assms by (auto simp: mirror_wf_def noted_def handles_def)

lemma distinct_store:
  assumes "distinct (map (ref_of U g) ms)"
  shows "distinct (map (ref_of U g) (store_del U g m ms))" "distinct (map (ref_of U g) (store_put U g m ms))"
  using assms by (auto simp: store_put_def store_del_def distinct_map_filter)

lemma inv_noted:
  fixes s :: "'s mirror_sys"
  assumes inv: "mirror_inv U row f0 s" and "handles (mi_mgr s) g i" "note_ok n" "note_write U g n = (r0, v0)"
    and "distinct (map (ref_of U g) ms)" "cache_row U ((mi_store s)(g := ms)) = (cache_row U (mi_store s))(r0 := v0)"
  shows "mirror_inv U row f0 (noted g n (s\<lparr>mi_store := (mi_store s)(g := ms)\<rparr>))"
proof -
  have wf: "mirror_wf U s" using inv by (simp add: mirror_inv_def)
  have "settled U row (noted g n (s\<lparr>mi_store := (mi_store s)(g := ms)\<rparr>)) r"
    if "f0 r = None \<or> ((cache_row U (mi_store s))(r0 := v0)) r \<noteq> None" for r
    using inv that by (intro noted_settles [OF wf assms(2,4,6)]) (auto simp: mirror_inv_def)
  then show ?thesis
    using wf_noted [OF wf assms(3,5)] assms(6) by (simp add: mirror_inv_def noted_def)
qed

lemma inv_deliver:
  fixes s :: "'s mirror_sys"
  assumes inv: "mirror_inv U row f0 s" and i: "i < length (mg_handlers (mi_mgr s))" "mi_notes s i = (op, obj) # rest"
    and room: "length (up_buf (us_u (mi_up s))) < up_capacity (us_u (mi_up s))"
    and h: "handle U now io op obj (mg_handlers (mi_mgr s) ! i) (mi_mgr s, us_u (mi_up s), us_d (mi_up s)) = (mgr', u', d')"
  shows "mirror_inv U row f0
    (s\<lparr>mi_mgr := mgr', mi_up := (mi_up s)\<lparr>us_u := u', us_d := d'\<rparr>, mi_notes := (mi_notes s)(i := rest)\<rparr>)"
    (is "mirror_inv U row f0 ?s")
proof -
  have wf: "mirror_wf U s" using inv by (simp add: mirror_inv_def)
  then have fl: "flags_ok (mi_mgr s)" and ok: "list_all note_ok (mi_notes s i)" by (simp_all add: mirror_wf_def)
  then have "note_ok (op, obj)" using i(2) by simp
  from handle_room [OF fl i(1) this room h] obtain ev where ev: "up_buf u' = up_buf (us_u (mi_up s)) @ [ev]"
      "row_write ev = note_write U (w_GVR (mg_handlers (mi_mgr s) ! i)) (op, obj)" "known_op ev" "d' = us_d (mi_up s)"
      "up_needSnapshot u' = up_needSnapshot (us_u (mi_up s))" "mg_handlers mgr' = mg_handlers (mi_mgr s)"
      "mg_informers mgr' = mg_informers (mi_mgr s)"
    by blast
  have "flags_ok mgr'" using wf ev(6,7) by (simp add: mirror_wf_def flags_ok_def)
  moreover have "up_calm (mi_up ?s)" using wf ev(4,5) by (simp add: mirror_wf_def up_calm_def cong: run_pc.case_cong)
  moreover have "list_all note_ok rest"
    using ok i(2) by simp
  moreover have "up_pend (mi_up ?s) = up_pend (mi_up s) @ [ev]" "up_snap (mi_up ?s) = up_snap (mi_up s)"
    using ev(1) by (simp_all add: up_pend_def up_snap_def)
  ultimately have "mirror_wf U ?s"
    using wf ev(3,6) i(1) by (simp add: mirror_wf_def)
  moreover have "settled U row ?s r" if "settled U row s r" for r
    using that
  proof (rule deliver_settles)
    show "note_writes U s i = row_write ev # note_writes U ?s i" using i(2) ev(2,6) by simp
    show "up_pend (mi_up ?s) = up_pend (mi_up s) @ [ev]" using ev(1) by (simp add: up_pend_def)
  qed (use ev(6) in \<open>simp_all add: up_snap_def\<close>)
  ultimately show ?thesis using inv by (simp add: mirror_inv_def)
qed

lemma inv_run:
  fixes s :: "'s mirror_sys"
  assumes inv: "mirror_inv U row f0 s" and law: "server_law app row"
    and step: "run_step (snapshot_of U now s) send io (mi_up s) = (l, up')" "srv' \<in> server_after app l (mi_srv s)"
  shows "mirror_inv U row f0 (s\<lparr>mi_up := up', mi_srv := srv'\<rparr>)"
proof -
  have wf: "mirror_wf U s" using inv by (simp add: mirror_inv_def)
  have "up_calm (mi_up s)" using wf by (simp add: mirror_wf_def)
  from run_calm [OF this step(1)] have calm: "up_calm up'"
    and sub: "set (up_pend up') \<subseteq> set (up_pend (mi_up s))"
      "set (up_snap up') \<subseteq> set (up_snap (mi_up s)) \<union> set (snapshot_of U now s)"
    by auto
  have "known_op ev" if "ev \<in> set (snapshot_of U now s)" for ev
    using snapshot_writes [OF _ _ that] wf by (simp add: mirror_wf_def)
  then have "mirror_wf U (s\<lparr>mi_up := up', mi_srv := srv'\<rparr>)"
    using wf calm sub by (auto simp: mirror_wf_def list_all_iff)
  moreover have "settled U row (s\<lparr>mi_up := up', mi_srv := srv'\<rparr>) r" if "settled U row s r" for r
    using that run_settles [OF wf law step] by (auto simp: settled_def untold_def)
  ultimately show ?thesis using inv by (simp add: mirror_inv_def)
qed

lemma mirror_inv_step:
  assumes "mirror_step U app s s'" "mirror_inv U row f0 s" "server_law app row"
  shows "mirror_inv U row f0 s'"
  using assms(1)
proof cases
  case (put g i op m)
  have "distinct (map (ref_of U g) (store_put U g m (mi_store s g)))"
    using assms(2) distinct_store(2) by (simp add: mirror_inv_def mirror_wf_def)
  from inv_noted [OF assms(2) put(2) _ _ this cache_put] put(1,3) show ?thesis
    by (auto simp: note_ok_def note_write_def)
next
  case (removed g i obj m)
  have "distinct (map (ref_of U g) (store_del U g m (mi_store s g)))"
    using assms(2) distinct_store(1) by (simp add: mirror_inv_def mirror_wf_def)
  from inv_noted [OF assms(2) removed(2) _ _ this cache_del] removed(1,3) show ?thesis
    by (auto simp: note_ok_def note_write_def)
next
  case (deliver i op obj rest now io mgr' u' d')
  then show ?thesis using inv_deliver [OF assms(2)] by blast
next
  case (run now send io l up' srv')
  then show ?thesis using inv_run [OF assms(2,3)] by blast
qed

lemma mirror_inv_start:
  fixes srv :: 's
  assumes "dk_spill d = None" "flags_ok mgr"
  shows "mirror_inv U row (row srv) (mirror_start cfg io d mgr srv)"
  using assms
  by (auto simp: mirror_inv_def mirror_wf_def mirror_start_def up_start_def up_calm_def up_pend_def up_snap_def in_flight_def
      uploader_New_def NewWithCapacity_def settled_def untold_def arriving_def cache_row_def)

lemma mirror_reach_inv:
  "mirror_reach U app s0 s \<Longrightarrow> mirror_inv U row f0 s0 \<Longrightarrow> server_law app row \<Longrightarrow> mirror_inv U row f0 s"
  by (induction rule: mirror_reach.induct) (auto intro: mirror_inv_step)

section \<open>The loop on its own\<close>

text \<open>The loop with working files against a server that answers; nothing else moves.\<close>

definition mirror_loop ::
  "unstr \<Rightarrow> (inventory_batch \<Rightarrow> 's \<Rightarrow> 's) \<Rightarrow> int \<Rightarrow> batch_sender \<Rightarrow> 's mirror_sys \<Rightarrow> 's mirror_sys" where
  "mirror_loop U app now send s =
     (case run_step (snapshot_of U now s) send good_io (mi_up s) of (l, up') \<Rightarrow>
        s\<lparr>mi_up := up', mi_srv := (case l of Acked b \<Rightarrow> app b (mi_srv s) | _ \<Rightarrow> mi_srv s)\<rparr>)"

lemma mirror_loop_step: "mirror_step U app s (mirror_loop U app now send s)"
proof -
  obtain l up' where r: "run_step (snapshot_of U now s) send good_io (mi_up s) = (l, up')" by fastforce
  have "(case l of Acked b \<Rightarrow> app b (mi_srv s) | _ \<Rightarrow> mi_srv s) \<in> server_after app l (mi_srv s)"
    by (cases l) (simp_all add: server_after_def)
  from mirror_step.run [OF r this] r show ?thesis by (simp add: mirror_loop_def)
qed

lemma mirror_loop_frame [simp]:
  "mi_store (mirror_loop U app now send s) = mi_store s" "mi_mgr (mirror_loop U app now send s) = mi_mgr s"
  "mi_notes (mirror_loop U app now send s) = mi_notes s"
  by (simp_all add: mirror_loop_def split_def)

lemma mirror_loop_pow:
  "mi_store ((mirror_loop U app now send ^^ n) s) = mi_store s \<and> mi_mgr ((mirror_loop U app now send ^^ n) s) = mi_mgr s \<and>
   mi_notes ((mirror_loop U app now send ^^ n) s) = mi_notes s \<and>
   mi_up ((mirror_loop U app now send ^^ n) s) = ((\<lambda>u. snd (run_step (snapshot_of U now s) send good_io u)) ^^ n) (mi_up s)"
  by (induction n) (auto simp: mirror_loop_def split_def)

lemma mirror_loop_reach:
  "mirror_reach U app s0 s \<Longrightarrow> mirror_reach U app s0 ((mirror_loop U app now send ^^ n) s)"
  by (induction n) (auto intro: mirror_reach.step mirror_loop_step)

lemma calm_drain_inv: "up_calm u \<Longrightarrow> drain_inv u"
  by (simp add: up_calm_def drain_inv_def spill_ok_def)

lemma drain_work_bound: "drain_work snap u \<le> 2 * size (pending u) + length snap + length (up_snap u) + 2"
  by (cases "us_pc u") (simp_all add: drain_work_def up_snap_def)

lemma idle_rows:
  fixes s :: "'s mirror_sys"
  assumes "mirror_inv U row f0 s" "\<And>i. mi_notes s i = []" "drained (mi_up s)" "f0 r = None \<or> cache_row U (mi_store s) r \<noteq> None"
  shows "row (mi_srv s) r = cache_row U (mi_store s) r"
proof -
  have "settled U row s r" using assms(1,4) by (auto simp: mirror_inv_def)
  then have "arriving (row (mi_srv s)) (mi_up s) r (cache_row U (mi_store s) r)"
    using assms(2) by (simp add: settled_def untold_def)
  moreover have "up_pend (mi_up s) = []" using assms(3) by (auto simp: drained_def pending_def up_pend_def)
  ultimately show ?thesis by (simp add: arriving_def)
qed

section \<open>Properties\<close>

text \<open>
  C6. Whenever the inventory path is idle, the control plane's inventory is the cluster's: after any interleaving of changes to
  the watched resources, notifications, uploads, failed uploads (applied by the server or not) and resent snapshots, if
  the handlers have no notification left and the uploader has nothing left to send, then the server's row of every
  object is the uploaded form of its state in the cache, and there is no row for an object that does not exist. The
  exception is a row an earlier process left behind for an object that has disappeared since: nothing removes it. (The
  server applies batches last-write-wins, as documented; the process starts without a spill file, and its buffer never
  fills up, so that no event is spilled.)
\<close>

theorem idle_mirror_exact:
  fixes s :: "'s mirror_sys"
  assumes "Resolve names = Inr ws" "dk_spill d = None" "server_law app row"
    and "mirror_reach U app (mirror_start cfg io d (manager_New disco register now0 ws) srv0) s"
    and "\<And>i. mi_notes s i = []" "drained (mi_up s)" "row srv0 r = None \<or> cache_row U (mi_store s) r \<noteq> None"
  shows "row (mi_srv s) r = cache_row U (mi_store s) r"
proof -
  have "mirror_inv U row (row srv0) (mirror_start cfg io d (manager_New disco register now0 ws) srv0)"
    using assms(2) manager_New_flags [OF assms(1)] by (rule mirror_inv_start)
  from mirror_reach_inv [OF assms(4) this assms(3)] have "mirror_inv U row (row srv0) s" .
  then show ?thesis using assms(5-7) by (rule idle_rows)
qed


text \<open>A server that keeps exactly the rows, and a cluster in which one Secret appears.\<close>

definition row_server :: "inventory_batch \<Rightarrow> rows \<Rightarrow> rows" where
  "row_server b f = event_writes (ib_Events b) f"

lemma row_server_law: "server_law row_server (\<lambda>f. f)"
  by (simp add: server_law_def row_server_def)

definition demo_secret :: jobj where
  "demo_secret = [(''data'', JObj [(''k'', JStr ''v'')])]"

abbreviation secrets_gvr :: gvr where
  "secrets_gvr \<equiv> mk_gvr '''' ''v1'' ''secrets''"

definition fresh_mirror :: "rows mirror_sys" where
  "fresh_mirror = mirror_start demo_config good_io demo_disk secrets_manager (\<lambda>_. None)"

definition put_mirror :: "rows mirror_sys" where
  "put_mirror = noted secrets_gvr (OpAdd, Obj demo_secret)
     (fresh_mirror\<lparr>mi_store := (mi_store fresh_mirror)(secrets_gvr := store_put ref_unstr secrets_gvr demo_secret [])\<rparr>)"

definition told_mirror :: "rows mirror_sys" where
  "told_mirror =
     (case handle ref_unstr 0 good_io OpAdd (Obj demo_secret) secrets_watch
        (secrets_manager, us_u (mi_up put_mirror), us_d (mi_up put_mirror)) of (mgr', u', d') \<Rightarrow>
      put_mirror\<lparr>mi_mgr := mgr', mi_up := (mi_up put_mirror)\<lparr>us_u := u', us_d := d'\<rparr>,
        mi_notes := (mi_notes put_mirror)(0 := [])\<rparr>)"

lemma secrets_manager_handlers: "mg_handlers secrets_manager = [secrets_watch]"
  by (simp add: secrets_manager_def manager_New_def manager_add_def served_def group_version_def secrets_watch_def mk_gvr_def)

lemma handles_secrets: "handles secrets_manager secrets_gvr i \<longleftrightarrow> i = 0"
  by (auto simp: handles_def secrets_manager_handlers secrets_watch_def)

lemma put_mirror_sys:
  "mi_mgr put_mirror = secrets_manager" "mi_notes put_mirror = (\<lambda>i. if i = 0 then [(OpAdd, Obj demo_secret)] else [])"
  "mi_up put_mirror = demo_start" "mi_store put_mirror = (\<lambda>_. [])(secrets_gvr := [demo_secret])"
  by (auto simp: put_mirror_def fresh_mirror_def mirror_start_def noted_def handles_secrets demo_start_def store_put_def
      store_del_def)

lemma demo_capacity: "length (up_buf (us_u demo_start)) < up_capacity (us_u demo_start)"
  by (simp add: demo_start_def up_start_def uploader_New_def NewWithCapacity_def)

lemma told_mirror_reach: "mirror_reach ref_unstr row_server fresh_mirror told_mirror"
proof -
  have "mirror_step ref_unstr row_server fresh_mirror put_mirror"
    unfolding put_mirror_def
    using mirror_step.put [of fresh_mirror secrets_gvr 0 OpAdd ref_unstr row_server demo_secret]
    by (simp add: handles_secrets fresh_mirror_def mirror_start_def)
  moreover have "mirror_step ref_unstr row_server put_mirror told_mirror"
  proof -
    obtain mgr' u' d' where h: "handle ref_unstr 0 good_io OpAdd (Obj demo_secret) secrets_watch
        (secrets_manager, us_u (mi_up put_mirror), us_d (mi_up put_mirror)) = (mgr', u', d')"
      by (metis prod_cases3)
    show ?thesis
      unfolding told_mirror_def h prod.case
      by (intro mirror_step.deliver [where op = OpAdd and obj = "Obj demo_secret" and now = 0 and io = good_io])
        (simp_all add: h [unfolded put_mirror_sys] put_mirror_sys secrets_manager_handlers demo_capacity)
  qed
  ultimately show ?thesis by (blast intro: mirror_reach.intros)
qed

lemma told_mirror_sys:
  "mi_notes told_mirror i = []" "mi_store told_mirror = (\<lambda>_. [])(secrets_gvr := [demo_secret])"
  by (simp_all add: told_mirror_def split_def put_mirror_sys)

abbreviation answer_all :: batch_sender where
  "answer_all \<equiv> (\<lambda>_. Inr zero_ack)"

lemma demo_row:
  "cache_row ref_unstr (mi_store told_mirror) (ref_of ref_unstr secrets_gvr demo_secret) =
     Some (uploaded ref_unstr secrets_gvr demo_secret)"
  by (simp add: cache_row_def told_mirror_sys)


theorem idle_mirror_exact_witness:
  "\<exists>s. mirror_reach ref_unstr row_server fresh_mirror s \<and> drained (mi_up s) \<and>
     mi_srv s (ref_of ref_unstr secrets_gvr demo_secret) = Some (uploaded ref_unstr secrets_gvr demo_secret)"
proof -
  have d: "dk_spill demo_disk = None" by (simp add: demo_disk_def)
  have "mirror_inv ref_unstr (\<lambda>f. f) (\<lambda>_. None) fresh_mirror"
    unfolding fresh_mirror_def secrets_manager_def
    using mirror_inv_start [OF d manager_New_flags [OF Resolve_secrets], of ref_unstr "\<lambda>f. f" "\<lambda>_. None"] by simp
  from mirror_reach_inv [OF told_mirror_reach this row_server_law] have "drain_inv (mi_up told_mirror)"
    by (intro calm_drain_inv) (simp add: mirror_inv_def mirror_wf_def)
  then obtain n where n:
      "drained (((\<lambda>u. snd (run_step (snapshot_of ref_unstr 0 told_mirror) answer_all good_io u)) ^^ n) (mi_up told_mirror))"
    using drains [of "mi_up told_mirror" answer_all] by blast
  let ?s = "(mirror_loop ref_unstr row_server 0 answer_all ^^ n) told_mirror"
  have s: "mi_store ?s = mi_store told_mirror" "\<And>i. mi_notes ?s i = []" "drained (mi_up ?s)"
    using mirror_loop_pow [where U = ref_unstr and app = row_server and now = 0 and send = answer_all and n = n
        and s = told_mirror] n told_mirror_sys(1) by simp_all
  have reach: "mirror_reach ref_unstr row_server fresh_mirror ?s"
    by (rule mirror_loop_reach [OF told_mirror_reach])
  have "mi_srv ?s r = cache_row ref_unstr (mi_store ?s) r" for r
    by (rule idle_mirror_exact [OF Resolve_secrets d row_server_law
          reach [unfolded fresh_mirror_def secrets_manager_def] s(2,3)]) simp
  then show ?thesis using reach s(1,3) demo_row by (intro exI [of _ ?s]) simp
qed

end
