(* ===== verification/Spec2Isabelle.thy ===== *)
theory Spec2Isabelle
  imports Agent Mockserver Mirror
begin

text \<open>
  A verification development of AuditReady-k3s, the in-cluster agent under \<^verbatim>\<open>src/\<close>: it mirrors the state of a
  Kubernetes cluster to a control plane and executes signed commands the control plane sends.

  \<^bold>\<open>The program.\<close> Informers (\<^verbatim>\<open>internal/informers\<close>) watch the cluster and hand events to the uploader
  (\<^verbatim>\<open>internal/uploader\<close>), which buffers them, spills to disk when full, and posts numbered batches through the HTTP client
  (\<^verbatim>\<open>internal/protocol/http.go\<close>). Commands arrive by polling (\<^verbatim>\<open>internal/receiver\<close>) or are pushed over a WebSocket
  (\<^verbatim>\<open>internal/wsclient\<close>); the receiver drops repeats, checks signature, age and nonce, and starts one goroutine
  per accepted command, in which the executor (\<^verbatim>\<open>internal/executor\<close>) changes the cluster and reports progress back
  through the receiver. \<^verbatim>\<open>internal/config\<close> reads the environment, \<^verbatim>\<open>internal/drift\<close> hashes objects,
  \<^verbatim>\<open>internal/validator\<close> holds a local policy, \<^verbatim>\<open>internal/metrics\<close> and \<^verbatim>\<open>internal/server\<close> expose metrics and
  readiness, \<^verbatim>\<open>cmd/operator\<close> wires the parts, and \<^verbatim>\<open>cmd/mockserver\<close> is a control plane for tests.

  \<^bold>\<open>Conventions.\<close> A Go string or byte slice is a \<^typ>\<open>string\<close> (256 characters, so bytes); an \<^verbatim>\<open>int64\<close> is an
  \<^typ>\<open>int\<close> with the wrap-around written out; a Go map is an association list where its order or printing matters and a
  function otherwise; structs are records, errors are values of a sum or option type, a nil dereference is a
  value of its own. Loops and goroutines are step relations in which the answers of all outside parties are arbitrary.

  \<^bold>\<open>Theories.\<close>
  \<^item> \<open>Prelude\<close>, \<open>Go_Strings\<close>, \<open>Go_Time\<close>, \<open>Go_Crypto\<close>: what the program uses of Go's standard library: strings, strconv,
    saturating times and durations, base64, hexadecimal and SHA-256, with their round trips (locale \<open>byte_codec\<close>).
  \<^item> \<open>Json\<close>, \<open>Json_Parse\<close>: the printer and the reader of \<^verbatim>\<open>encoding/json\<close>. The reader gives back what the printer wrote, up to
    order of keys and repair of invalid UTF-8, so printing is injective on canonical values.
  \<^item> \<open>Config\<close>: \<^verbatim>\<open>config.go\<close>; a loaded configuration satisfies what the other parts rely on.
  \<^item> \<open>Protocol\<close>, \<open>Wire\<close>: \<^verbatim>\<open>types.go\<close>, \<^verbatim>\<open>sign.go\<close>, \<^verbatim>\<open>http.go\<close>, \<^verbatim>\<open>ws.go\<close>. The signing payload, injective on fields without
    newlines and ambiguous with them; signing and verification; classification of HTTP outcomes; and the JSON of every struct.
    The locale \<open>wire_type\<close> states the contract of a struct (it is read back, it is printable) and proves its round trip once; it is
    interpreted for all the structs of the protocol.
  \<^item> \<open>Validator\<close>: \<^verbatim>\<open>validator.go\<close>, equivalent to a declarative policy.
  \<^item> \<open>Metrics\<close>: \<^verbatim>\<open>metrics.go\<close> and \<^verbatim>\<open>server/http.go\<close>.
  \<^item> \<open>Caches\<close>: the nonce and id caches, the report queue and the backoff of \<^verbatim>\<open>receiver.go\<close>, as interpretations of the
    locales \<open>key_memory\<close>, \<open>ack_buffer\<close> and \<open>retry_policy\<close>.
  \<^item> \<open>Receiver\<close>: \<^verbatim>\<open>receiver.go\<close>; \<open>recv_step\<close> interleaves polls, pushed commands and reports of handlers. Invariants:
    dispatched commands are authentic, recent and not repeated; terminal reports are not lost.
  \<^item> \<open>Unstructured\<close>, \<open>Manifest\<close>, \<open>Drift\<close>: object accessors (a record of arguments with a reference instance), the bodies of updates
    (\<^verbatim>\<open>mergeForUpdate\<close>, \<^verbatim>\<open>adoptImmutableFields\<close>), and \<^verbatim>\<open>drift.go\<close>: the hash ignores what the API server manages, survives its own
    annotation, and, short of a collision of SHA-256, misses no other change.
  \<^item> \<open>Exec_Monad\<close>, \<open>Exec_Objects\<close>, \<open>Exec_Drain\<close>, \<open>Exec_Helm\<close>, \<open>Executor\<close>: \<^verbatim>\<open>executor.go\<close> and \<^verbatim>\<open>helm.go\<close> as programs of a state
    monad that records every interaction with an arbitrary cluster; \<open>emits\<close> is a calculus for properties of these traces.
    \<open>Exec_Policy\<close> and \<open>Exec_Stall\<close> show that writes are dry-run first, pass the drift gate, stay within the command,
    that drains are safe and truthful (locale \<open>drain_monitor\<close>), and that they end.
  \<^item> \<open>Uploader\<close>, \<open>Upload_Run\<close>: \<^verbatim>\<open>uploader.go\<close>. The loop with failing files, an arbitrary server and restarts refines a
    bag of pending events; acknowledged batches are numbered consecutively; with a server that answers, everything is uploaded.
  \<^item> \<open>Informers\<close>: \<^verbatim>\<open>manager.go\<close> and \<^verbatim>\<open>resources.go\<close>; the values in the data of a Secret do not influence what is uploaded.
  \<^item> \<open>Mirror\<close>: the inventory path as a whole: the informers' caches, their handlers, the uploader's loop and a control plane that
    applies batches last-write-wins (\<^verbatim>\<open>SERVER.md\<close>). Whenever the path is idle the control plane shows exactly what the
    caches hold, and once the server answers the path becomes idle, for runs in which no event is spilled (\<open>Upload_Run\<close>
    shows that a spilled event can be overtaken) and up to rows an earlier process left behind.
  \<^item> \<open>Wsclient\<close>: \<^verbatim>\<open>wsclient.go\<close>; every session follows the protocol of hello, acknowledgement, commands and reports.
  \<^item> \<open>Operator\<close>: \<^verbatim>\<open>cmd/operator/main.go\<close>; the read-only mode has no write path, and the validator is never asked.
    The process as a step relation: while its context is live every subsystem runs, and it ends after all of them.
  \<^item> \<open>Mockserver\<close>: \<^verbatim>\<open>cmd/mockserver/main.go\<close>, command line included, against the agent's clients, through the bytes on
    the wire.
  \<^item> \<open>Agent\<close>: the composition of receiver, running handlers, executor and restarts; this theory states what holds of it.

  \<^bold>\<open>Parameters.\<close> Ed25519, the clock, random numbers, the API server, discovery, YAML, quantities, Helm, the shared informers,
  the socket library, the control plane and the file system are arguments. The hypotheses about them are named in the theorems: a
  signature made with the private key verifies, the server applies batches last-write-wins, the clock advances during a wait, accessors read what they name, file operations
  succeed where a theorem says so.

  \<^bold>\<open>Bounds.\<close> The JSON reader takes the length of its input as fuel and 10000 as the depth limit, as Go does; its round trips
  show both are enough for what the program prints. The eviction loop takes fuel; \<open>Exec_Stall\<close> shows that the number of
  two-second waits in the stall timeout, plus one, is never used up.

  \<^bold>\<open>Not modelled.\<close> The context's cancellation, except where a handler observes it and for the end of the process; the
  small helpers that wait on it (\<^verbatim>\<open>sleep\<close>, \<^verbatim>\<open>commandCtx\<close>); logging; the Prometheus registry and the TCP listeners; the adapters that
  hand Helm its REST configuration; charts, images and the Go tests. The data race between the poll loop and the socket on the unsynchronised caches is outside the model, whose
  steps are atomic calls of \<^verbatim>\<open>process\<close>.
\<close>

section \<open>Properties of the composed agent\<close>

text \<open>
  C1. Nothing is written to the cluster but on behalf of an authentic command: if the process was started by
  \<^verbatim>\<open>run\<close>, then in every state it can reach, with any number of handlers running, under every interleaving of their
  steps with polls, pushed commands and restarts, and whatever the API server answers, each write call that was ever
  made belongs to a command whose signature Ed25519 accepts under the configured key, made by a process that has
  a writer token (or a kubeconfig); the call is one the verb and the target of that command allow; and no pod of a
  protected namespace is evicted.
\<close>

theorem agent_writes_authorised:
  assumes "operator_run env = Inr op" "agent_reachable verify (op_cfg op) (op_push op) E a"
    and "\<forall>e \<in> E. ex_cfg e = op_cfg op" "(cmd, ECall dry call res) \<in> set (ag_log a)"
  shows "op_executor op \<noteq> None \<and>
    (oe_exists env (WriterTokenPath (op_cfg op)) \<or> oe_getenv env ''KUBECONFIG'' \<noteq> '''') \<and>
    (\<exists>pub sig. PublicKey (op_cfg op) = Inr pub \<and> base64_DecodeString (c_Signature cmd) = Some sig \<and>
       verify pub (SigningPayload cmd) sig) \<and>
    write_allowed cmd call \<and> (\<forall>ns n. call = Evict ns n \<longrightarrow> \<not> ProtectedNamespace (op_cfg op) ns)"
proof -
  obtain cfg where "build_operator env cfg = Inr op"
    using assms(1) by (auto simp: operator_run_def split: sum.splits)
  then have op: "op_cfg op = cfg\<lparr>WriterEnabled := writerAvailable env cfg\<rparr>"
      "op_executor op \<noteq> None \<longleftrightarrow> writerAvailable env cfg"
    using build_Inr by blast+
  obtain t tr where c: "admitted verify (op_cfg op) t cmd" "handler_trace E cmd tr" "ECall dry call res \<in> set tr"
    using reachable_authority [OF assms(2)] assms(4) by (auto simp: authority_def)
  then have "writerAvailable env cfg" using op(1) by (simp add: admitted_def)
  then have "op_executor op \<noteq> None \<and>
      (oe_exists env (WriterTokenPath (op_cfg op)) \<or> oe_getenv env ''KUBECONFIG'' \<noteq> '''')"
    using op by (simp add: writerAvailable_def)
  moreover have "\<exists>pub sig. PublicKey (op_cfg op) = Inr pub \<and> base64_DecodeString (c_Signature cmd) = Some sig \<and>
      verify pub (SigningPayload cmd) sig"
    using c(1) by (auto simp: admitted_def VerifySignature_None)
  moreover have "write_allowed cmd call" by (rule trace_confined [OF c(2,3)])
  moreover have "\<not> ProtectedNamespace (op_cfg op) ns" if "call = Evict ns n" for ns n
    using trace_evicts [OF c(2)] c(3) that assms(3) by blast
  ultimately show ?thesis by blast
qed

text \<open>A pod with its token files, and a cluster that accepts every write, on which a deletion runs.\<close>

definition writer_env :: op_env where
  "writer_env = bare_env\<lparr>oe_exists := (\<lambda>_. True)\<rparr>"

definition demo_cluster :: "(int, unit, int) executor set" where
  "demo_cluster = {demo_exec demo_config (Some []) []}"

abbreviation demo_deletion :: "unit write_call" where
  "demo_deletion \<equiv> Delete (gvrOf (c_Target delete_signed)) (Some (rr_Namespace (c_Target delete_signed)))
     (rr_Name (c_Target delete_signed))"

lemma writer_env_runs:
  "\<exists>op. operator_run writer_env = Inr op \<and> op_cfg op = demo_config \<and> op_push op = WSEnabled demo_config"
proof -
  have "WriterEnabled demo_config" "\<And>cfg :: config. WriterEnabled cfg \<Longrightarrow> cfg\<lparr>WriterEnabled := True\<rparr> = cfg"
    by simp_all
  then show ?thesis
    using Resolve_default bare_env_loads bare_env_vars
    by (auto simp: writer_env_def operator_run_def build_operator_def kubeConfigFor_def build_writer_def
        writerAvailable_def with_client_def Let_def)
qed

lemma delete_admitted: "admitted accept_all demo_config (pe_now demo_penv) delete_signed"
  using delete_signature delete_time by (simp add: admitted_def)

lemma delete_trace:
  obtains tr where "handler_trace demo_cluster delete_signed tr" "ECall False demo_deletion None \<in> set tr" "EPanic \<notin> set tr"
proof
  let ?tr = "run_trace (HandleCommand 0 (demo_exec demo_config (Some []) []) delete_signed) 0"
  show tr: "handler_trace demo_cluster delete_signed ?tr" by (auto simp: handler_trace_def demo_cluster_def)
  show "ECall False demo_deletion None \<in> set ?tr"
    by (rule delete_carried_out) (simp_all add: delete_signed_def demo_signed_def demo_command_def demo_exec_def)
  show "EPanic \<notin> set ?tr"
  proof -
    obtain u where u: "?tr = EReport StatusValidating '''' '''' 0 # u" "lifecycle (c_Verb delete_signed) u"
      using trace_lifecycle [OF tr] by blast
    have "EPanic \<notin> set u" by (rule lifecycle_no_panic [OF u(2)]) (simp add: delete_signed_def)
    then show ?thesis unfolding u(1) by simp
  qed
qed

lemma delete_runs:
  obtains a run where "agent_reachable accept_all demo_config push demo_cluster a" "run \<in> set (ag_runs a)"
    "gr_cmd run = delete_signed" "gr_todo run = []" "length (rc_id_history (ps_r (ag_poll a))) \<le> 1"
    "(delete_signed, ECall False demo_deletion None) \<in> set (ag_log a)"
    "rc_dispatched (ps_r (ag_poll a)) = [(pe_now demo_penv, delete_signed)]"
proof -
  obtain tr where tr: "handler_trace demo_cluster delete_signed tr" "ECall False demo_deletion None \<in> set tr" "EPanic \<notin> set tr"
    by (rule delete_trace)
  let ?run = "\<lparr>gr_cmd = delete_signed, gr_done = [], gr_todo = tr\<rparr>"
  obtain a1 where a1: "agent_step accept_all demo_config push demo_cluster (agent_init demo_config push []) a1"
      "rc_dispatched (ps_r (ag_poll a1)) = [(pe_now demo_penv, delete_signed)]" "ag_runs a1 = [?run]"
      "rc_id_history (ps_r (ag_poll a1)) = [c_ID delete_signed]"
    using fresh_agent_starts [OF delete_admitted tr(1)] by blast
  have "agent_reachable accept_all demo_config push demo_cluster a1"
    using a1(1) agent_reachable.intros by blast
  from handler_proceeds [OF this, of 0 ?run tr "[]"] a1(2-) tr(3) obtain a2 where
      "agent_reachable accept_all demo_config push demo_cluster a2" "ag_runs a2 = [?run\<lparr>gr_done := tr, gr_todo := []\<rparr>]"
      "rc_dispatched (ps_r (ag_poll a2)) = [(pe_now demo_penv, delete_signed)]"
      "rc_id_history (ps_r (ag_poll a2)) = [c_ID delete_signed]"
      "ag_log a2 = ag_log a1 @ map (Pair delete_signed) (filter (\<lambda>x. reported [x] = []) tr)"
    by auto
  with tr(2) show ?thesis by (intro that [of a2 "?run\<lparr>gr_done := tr, gr_todo := []\<rparr>"]) auto
qed

theorem agent_writes_authorised_witness:
  "\<exists>op a. operator_run writer_env = Inr op \<and>
     agent_reachable accept_all (op_cfg op) (op_push op) demo_cluster a \<and>
     (delete_signed, ECall False demo_deletion None) \<in> set (ag_log a) \<and>
     op_executor op \<noteq> None \<and> write_allowed delete_signed demo_deletion"
proof -
  obtain op where op: "operator_run writer_env = Inr op" "op_cfg op = demo_config" "op_push op = WSEnabled demo_config"
    using writer_env_runs by blast
  obtain a where a: "agent_reachable accept_all (op_cfg op) (op_push op) demo_cluster a"
      "(delete_signed, ECall False demo_deletion None) \<in> set (ag_log a)"
    using delete_runs [of "WSEnabled demo_config"] op by metis
  moreover have "\<forall>e \<in> demo_cluster. ex_cfg e = op_cfg op" using op by (simp add: demo_cluster_def)
  ultimately show ?thesis
    using agent_writes_authorised [OF op(1) a(1) _ a(2)] op(1) by blast
qed



text \<open>
  C36. The replay protection does not survive a restart: nonces and ids are remembered in memory only, so a command
  that has been dispatched is accepted and run in full a second time if the process restarts and the command is delivered
  again while its timestamp is within the five minutes.
\<close>

theorem replay_after_restart:
  fixes env :: penv
  assumes "agent_reachable verify cfg push E a" "(t, cmd) \<in> set (rc_dispatched (ps_r (ag_poll a)))"
    and "\<bar>time_Since (pe_now env) (time_Unix (c_Timestamp cmd))\<bar> \<le> maxClockSkew" "handler_trace E cmd tr"
  shows "\<exists>a1 a2. agent_step verify cfg push E a a1 \<and> agent_step verify cfg push E a1 a2 \<and>
    rc_dispatched (ps_r (ag_poll a2)) = [(pe_now env, cmd)] \<and>
    ag_runs a2 = [\<lparr>gr_cmd = cmd, gr_done = [], gr_todo = tr\<rparr>]"
proof -
  have "admitted verify cfg t cmd"
    using reachable_authority [OF assms(1)] assms(2) by (auto simp: authority_def sys_inv_def core_inv_def)
  then have "admitted verify cfg (pe_now env) cmd" using assms(3) by (simp add: admitted_def)
  from fresh_agent_starts [OF this assms(4)] agent_step.restart show ?thesis by blast
qed

theorem replay_after_restart_witness:
  "\<exists>a a1 a2. agent_reachable accept_all demo_config True demo_cluster a \<and>
     (delete_signed, ECall False demo_deletion None) \<in> set (ag_log a) \<and>
     agent_step accept_all demo_config True demo_cluster a a1 \<and> agent_step accept_all demo_config True demo_cluster a1 a2 \<and>
     rc_dispatched (ps_r (ag_poll a2)) = [(pe_now demo_penv, delete_signed)]"
proof -
  obtain a where a: "agent_reachable accept_all demo_config True demo_cluster a"
      "(pe_now demo_penv, delete_signed) \<in> set (rc_dispatched (ps_r (ag_poll a)))"
      "(delete_signed, ECall False demo_deletion None) \<in> set (ag_log a)"
    by (rule delete_runs [of True]) simp
  obtain tr where tr: "handler_trace demo_cluster delete_signed tr" by (rule delete_trace)
  have "\<bar>time_Since (pe_now demo_penv) (time_Unix (c_Timestamp delete_signed))\<bar> \<le> maxClockSkew"
    using delete_time by simp
  from replay_after_restart [OF a(1,2) this tr] a(1,3) show ?thesis by blast
qed

end
